theory Spec2Isabelle
  imports Main "HOL-Library.Word"
begin

section \<open>Run-time faults\<close>

text \<open>
  A Go panic aborts the whole program.  Every place of the source that can panic is a
  branch of the model returning one of these faults.
\<close>

datatype fault = IndexOutOfRange | NilPointerDereference | SendOnClosedChannel

text \<open>
  Go slice indexing \<open>xs[i]\<close> with an \<open>int\<close> index: a run-time panic outside
  \<open>0 \<le> i < len(xs)\<close>.
\<close>

definition go_index :: "'a list \<Rightarrow> int \<Rightarrow> fault + 'a" where
  "go_index xs i =
     (if 0 \<le> i \<and> i < int (length xs) then Inr (xs ! nat i) else Inl IndexOutOfRange)"

section \<open>Strings\<close>

text \<open>
  A Go string is a sequence of bytes, read as UTF-8.  \<open>strings.TrimSpace\<close> removes the
  leading and the trailing white space of Unicode (\<open>unicode.IsSpace\<close>): the six blanks of
  ASCII, and the code points U+0085, U+00A0, U+1680, U+2000 to U+200A, U+2028, U+2029,
  U+202F, U+205F and U+3000, which are two or three bytes each.  A byte sequence that is not
  the encoding of one of them, valid or not, is not white space.
\<close>

definition asciiSpace :: "char \<Rightarrow> bool" where
  "asciiSpace c \<longleftrightarrow>
     c \<in> set [CHR 0x09, CHR 0x0A, CHR 0x0B, CHR 0x0C, CHR 0x0D, CHR 0x20]"

definition spaceRune2 :: "char \<Rightarrow> char \<Rightarrow> bool" where
  "spaceRune2 c d \<longleftrightarrow> c = CHR 0xC2 \<and> d \<in> set [CHR 0x85, CHR 0xA0]"

definition spaceRune3 :: "char \<Rightarrow> char \<Rightarrow> char \<Rightarrow> bool" where
  "spaceRune3 c d e \<longleftrightarrow>
     c = CHR 0xE1 \<and> d = CHR 0x9A \<and> e = CHR 0x80
     \<or> c = CHR 0xE2 \<and> d = CHR 0x80
         \<and> e \<in> set [CHR 0x80, CHR 0x81, CHR 0x82, CHR 0x83, CHR 0x84, CHR 0x85, CHR 0x86,
                      CHR 0x87, CHR 0x88, CHR 0x89, CHR 0x8A, CHR 0xA8, CHR 0xA9, CHR 0xAF]
     \<or> c = CHR 0xE2 \<and> d = CHR 0x81 \<and> e = CHR 0x9F
     \<or> c = CHR 0xE3 \<and> d = CHR 0x80 \<and> e = CHR 0x80"

text \<open>Leading white space: runes are decoded from the front.\<close>

fun TrimLeftSpace :: "string \<Rightarrow> string" where
  "TrimLeftSpace (c # d # e # s) =
     (if asciiSpace c then TrimLeftSpace (d # e # s)
      else if spaceRune2 c d then TrimLeftSpace (e # s)
      else if spaceRune3 c d e then TrimLeftSpace s
      else c # d # e # s)"
| "TrimLeftSpace [c, d] =
     (if asciiSpace c then TrimLeftSpace [d]
      else if spaceRune2 c d then []
      else [c, d])"
| "TrimLeftSpace [c] = (if asciiSpace c then [] else [c])"
| "TrimLeftSpace [] = []"

text \<open>
  Trailing white space, on the reversed string: the last rune is decoded from the nearest
  start byte before the end, so the bytes of a rune come last byte first.
\<close>

fun TrimRightSpace_rev :: "string \<Rightarrow> string" where
  "TrimRightSpace_rev (e # d # c # s) =
     (if asciiSpace e then TrimRightSpace_rev (d # c # s)
      else if spaceRune2 d e then TrimRightSpace_rev (c # s)
      else if spaceRune3 c d e then TrimRightSpace_rev s
      else e # d # c # s)"
| "TrimRightSpace_rev [e, d] =
     (if asciiSpace e then TrimRightSpace_rev [d]
      else if spaceRune2 d e then []
      else [e, d])"
| "TrimRightSpace_rev [e] = (if asciiSpace e then [] else [e])"
| "TrimRightSpace_rev [] = []"

definition TrimSpace :: "string \<Rightarrow> string" where
  "TrimSpace s = rev (TrimRightSpace_rev (rev (TrimLeftSpace s)))"

section \<open>The credential manager\<close>

record ApiCredential =
  AuthID :: string
  AuthToken :: string

text \<open>
  The struct \<open>APIManager\<close>.  The mutex field is not a field of the model: every exported
  method holds it from entry to exit, so each method is one atomic state transformer
  and concurrent callers are a sequence of such transformers.
\<close>

record APIManager =
  credentials :: "ApiCredential list"
  current :: int
  usageCount :: int
  maxUsage :: int

text \<open>
  The console of \<open>getAdditionalCredentialsFromUser\<close>: the lines still to come on standard
  input, read one line at a time as from a terminal, and the number of prompts shown so far.
\<close>

record Console =
  stdin :: "string list"
  prompts :: nat

definition NewAPIManager :: "ApiCredential list \<Rightarrow> APIManager" where
  "NewAPIManager creds =
     \<lparr>credentials = creds, current = 0, usageCount = 0, maxUsage = 1000\<rparr>"

definition rotate_cursor :: "APIManager \<Rightarrow> APIManager" where
  "rotate_cursor m = m\<lparr>current := current m + 1, usageCount := 0\<rparr>"

text \<open>
  The input loop of \<open>getAdditionalCredentialsFromUser\<close>: an id line and a token line per
  credential, until one of them is empty once trimmed.  At the end of input \<open>scanner.Scan\<close>
  fails and \<open>scanner.Text\<close> is empty, which ends the loop as an empty line does.
\<close>

fun readCredentials :: "string list \<Rightarrow> ApiCredential list \<Rightarrow> ApiCredential list \<times> string list" where
  "readCredentials [] creds = (creds, [])"
| "readCredentials [idLine] creds = (creds, [])"
| "readCredentials (idLine # tokenLine # rest) creds =
     (if TrimSpace idLine = [] then (creds, tokenLine # rest)
      else if TrimSpace tokenLine = [] then (creds, rest)
      else readCredentials rest
             (creds @ [\<lparr>AuthID = TrimSpace idLine, AuthToken = TrimSpace tokenLine\<rparr>]))"

definition getAdditionalCredentialsFromUser ::
  "int \<Rightarrow> Console \<Rightarrow> ApiCredential list \<times> Console" where
  "getAdditionalCredentialsFromUser requiredCount con =
     (case readCredentials (stdin con) [] of
        (creds, rest) \<Rightarrow> (creds, con\<lparr>stdin := rest, prompts := prompts con + 1\<rparr>))"

definition emptyCredential :: ApiCredential where
  "emptyCredential = \<lparr>AuthID = [], AuthToken = []\<rparr>"

text \<open>
  \<open>GetCredentials\<close>, in the order of the source: the quota check (whose log line reads
  \<open>credentials[current]\<close>), the exhaustion check with the prompt, then the read of
  \<open>credentials[current]\<close> and the increment.
\<close>

definition GetCredentials ::
  "APIManager \<Rightarrow> Console \<Rightarrow> fault + ((ApiCredential \<times> bool) \<times> APIManager \<times> Console)" where
  "GetCredentials m con =
     (case (if usageCount m \<ge> maxUsage m \<and> current m < int (length (credentials m))
            then (case go_index (credentials m) (current m) of
                    Inl f \<Rightarrow> Inl f
                  | Inr logged \<Rightarrow> Inr (rotate_cursor m))
            else Inr m) of
        Inl f \<Rightarrow> Inl f
      | Inr m1 \<Rightarrow>
          if current m1 \<ge> int (length (credentials m1)) then
            (case getAdditionalCredentialsFromUser 1 con of
               (newCredentials, con') \<Rightarrow>
                 if length newCredentials = 0 then Inr ((emptyCredential, False), m1, con')
                 else
                   (let m2 = m1\<lparr>credentials := credentials m1 @ newCredentials\<rparr> in
                    case go_index (credentials m2) (current m2) of
                      Inl f \<Rightarrow> Inl f
                    | Inr cred \<Rightarrow> Inr ((cred, True), m2\<lparr>usageCount := usageCount m2 + 1\<rparr>, con')))
          else
            (case go_index (credentials m1) (current m1) of
               Inl f \<Rightarrow> Inl f
             | Inr cred \<Rightarrow> Inr ((cred, True), m1\<lparr>usageCount := usageCount m1 + 1\<rparr>, con)))"

definition InvalidateCurrent :: "APIManager \<Rightarrow> fault + APIManager" where
  "InvalidateCurrent m =
     (if current m \<ge> int (length (credentials m)) then Inr m
      else (case go_index (credentials m) (current m) of
              Inl f \<Rightarrow> Inl f
            | Inr logged \<Rightarrow> Inr (rotate_cursor m)))"

definition GetAllCredentials :: "APIManager \<Rightarrow> ApiCredential list \<times> APIManager" where
  "GetAllCredentials m = (credentials m, m)"

text \<open>A sequence of calls on the shared manager, in the order the lock grants them.\<close>

datatype PoolOp = Acquire | Invalidate

fun pool_step :: "PoolOp \<Rightarrow> APIManager \<times> Console \<Rightarrow> fault + (APIManager \<times> Console)" where
  "pool_step Acquire (m, con) =
     (case GetCredentials m con of Inl f \<Rightarrow> Inl f | Inr (r, m', con') \<Rightarrow> Inr (m', con'))"
| "pool_step Invalidate (m, con) =
     (case InvalidateCurrent m of Inl f \<Rightarrow> Inl f | Inr m' \<Rightarrow> Inr (m', con))"

fun pool_run :: "PoolOp list \<Rightarrow> APIManager \<times> Console \<Rightarrow> fault + (APIManager \<times> Console)" where
  "pool_run [] s = Inr s"
| "pool_run (op # ops) s =
     (case pool_step op s of Inl f \<Rightarrow> Inl f | Inr s' \<Rightarrow> pool_run ops s')"

definition pool_inv :: "APIManager \<Rightarrow> bool" where
  "pool_inv m \<longleftrightarrow> 0 \<le> current m \<and> current m \<le> int (length (credentials m))"

text \<open>
  Go's \<open>int\<close> has 64 bits; the model uses unbounded integers.  In the states that calls
  reach from \<open>NewAPIManager\<close> the counter stays within \<open>0 .. maxUsage = 1000\<close> (and is zero
  while the pool is exhausted) and the cursor within \<open>0 .. len(credentials)\<close>, so neither
  increment can overflow.
\<close>

definition counters_bounded :: "APIManager \<Rightarrow> bool" where
  "counters_bounded m \<longleftrightarrow>
     pool_inv m \<and> maxUsage m = 1000 \<and> 0 \<le> usageCount m \<and> usageCount m \<le> 1000
     \<and> (current m \<ge> int (length (credentials m)) \<longrightarrow> usageCount m = 0)"

section \<open>Addresses and the validation provider\<close>

record Address =
  Title :: string
  Price :: string
  Street :: string
  City :: string
  State :: string
  Zip :: string
  Link :: string
  RDI :: string
  CMRA :: string

text \<open>
  One candidate of a lookup result, with the two fields \<open>SmartyInfo\<close> reads:
  \<open>candidate.Analysis.DPVCMRACode\<close> and \<open>candidate.Metadata.RDI\<close>.
\<close>

record Candidate =
  cand_DPVCMRACode :: string
  cand_RDI :: string

text \<open>
  What \<open>client.SendBatchWithContext\<close> does to the batch: it fails with an error, or it
  fills in the results of every record of the batch.
\<close>

datatype ProviderReply = BatchError string | BatchRecords "Candidate list list"

datatype SmartyError = ErrUnknownAddress | SendError string

fun smarty_records :: "Candidate list list \<Rightarrow> Address \<Rightarrow> SmartyError option \<times> Address" where
  "smarty_records [] addr = (None, addr)"
| "smarty_records (results # rest) addr =
     (case results of
        [] \<Rightarrow> (Some ErrUnknownAddress, addr)
      | candidate # others \<Rightarrow>
          smarty_records rest
            (addr\<lparr>CMRA := cand_DPVCMRACode candidate, RDI := cand_RDI candidate\<rparr>))"

text \<open>
  \<open>SmartyInfo\<close> writes through the pointer \<open>addr\<close>: the address is returned with the error.
\<close>

definition SmartyInfo :: "ProviderReply \<Rightarrow> Address \<Rightarrow> SmartyError option \<times> Address" where
  "SmartyInfo reply addr =
     (case reply of
        BatchError e \<Rightarrow> (Some (SendError e), addr)
      | BatchRecords rs \<Rightarrow> smarty_records rs addr)"

text \<open>
  The provider, as the worker sees it: the reply to the lookup of an address made with a
  credential at a given attempt of that address.
\<close>

type_synonym Provider = "ApiCredential \<Rightarrow> Address \<Rightarrow> nat \<Rightarrow> ProviderReply"

section \<open>The enrichment worker\<close>

text \<open>\<open>time.Duration\<close>: signed 64-bit nanoseconds.\<close>

type_synonym Duration = "64 word"

definition Second :: Duration where
  "Second = 1000000000"

definition maxRetries :: nat where
  "maxRetries = 4"

definition initialBackoff :: Duration where
  "initialBackoff = 2 * Second"

text \<open>\<open>initialBackoff * time.Duration(1<<(attempt-1))\<close>, evaluated for \<open>attempt > 0\<close>.\<close>

definition backoffDuration :: "nat \<Rightarrow> Duration" where
  "backoffDuration attempt = initialBackoff * push_bit (attempt - 1) 1"

text \<open>What a worker does that others can observe, in program order.\<close>

datatype Event =
    LogProcessing Address
  | LogRetry nat Duration
  | Sleep Duration
  | CallGetCredentials
  | LogExhausted
  | Acquired ApiCredential
  | Request ApiCredential Address
  | SendResult Address
  | LogUnknown Address
  | SendFailed Address
  | LogFailure ApiCredential nat
  | Invalidated
  | LogGiveUp Address

text \<open>
  How the retry loop of one address ends: by \<open>break\<close> with \<open>success = true\<close>, by running
  out of attempts with \<open>success = false\<close>, by the \<open>return\<close> of the worker when no credential
  is left, or by a panic.
\<close>

datatype LoopEnd = Handled | OutOfAttempts | WorkerReturned | Panicked fault

definition retryWait :: "nat \<Rightarrow> Event list" where
  "retryWait attempt =
     (if attempt > 0
      then [LogRetry attempt (backoffDuration attempt), Sleep (backoffDuration attempt)]
      else [])"

function attemptLoop ::
  "Provider \<Rightarrow> nat \<Rightarrow> Address \<Rightarrow> APIManager \<times> Console
     \<Rightarrow> Event list \<times> (APIManager \<times> Console) \<times> LoopEnd" where
  "attemptLoop provider attempt addr (m, con) =
     (if attempt \<le> maxRetries then
        (case GetCredentials m con of
           Inl f \<Rightarrow> (retryWait attempt @ [CallGetCredentials], (m, con), Panicked f)
         | Inr ((cred, ok), m1, con1) \<Rightarrow>
             if \<not> ok then
               (retryWait attempt @ [CallGetCredentials, LogExhausted, SendFailed addr],
                (m1, con1), WorkerReturned)
             else
               (case SmartyInfo (provider cred addr attempt) addr of
                  (None, addr') \<Rightarrow>
                    (retryWait attempt
                       @ [CallGetCredentials, Acquired cred, Request cred addr, SendResult addr'],
                     (m1, con1), Handled)
                | (Some err, addr') \<Rightarrow>
                    if err = ErrUnknownAddress then
                      (retryWait attempt
                         @ [CallGetCredentials, Acquired cred, Request cred addr,
                            LogUnknown addr', SendFailed addr'],
                       (m1, con1), Handled)
                    else
                      (case InvalidateCurrent m1 of
                         Inl f \<Rightarrow>
                           (retryWait attempt
                              @ [CallGetCredentials, Acquired cred, Request cred addr,
                                 LogFailure cred (attempt + 1), Invalidated],
                            (m1, con1), Panicked f)
                       | Inr m2 \<Rightarrow>
                           (case attemptLoop provider (attempt + 1) addr' (m2, con1) of
                              (evs, s, e) \<Rightarrow>
                                (retryWait attempt
                                   @ [CallGetCredentials, Acquired cred, Request cred addr,
                                      LogFailure cred (attempt + 1), Invalidated] @ evs,
                                 s, e)))))
      else ([], (m, con), OutOfAttempts))"
  by pat_completeness auto
termination
  by (relation "measure (\<lambda>(provider, attempt, addr, s). maxRetries + 1 - attempt)") auto

declare attemptLoop.simps [simp del]

text \<open>The body of \<open>for addr := range jobs\<close> for one address.\<close>

definition processJob ::
  "Provider \<Rightarrow> Address \<Rightarrow> APIManager \<times> Console
     \<Rightarrow> Event list \<times> (APIManager \<times> Console) \<times> LoopEnd" where
  "processJob provider addr s =
     (case attemptLoop provider 0 addr s of
        (evs, s', e) \<Rightarrow>
          (if e = OutOfAttempts then (LogProcessing addr # evs @ [LogGiveUp addr], s', e)
           else (LogProcessing addr # evs, s', e)))"

text \<open>
  \<open>smartyWorker\<close> alone on a queue that holds the given jobs and is then closed: the worker
  ends when the queue is drained, when it returns for lack of credentials, or by a panic.
  The result says how it ended (\<open>Handled\<close> for the drained queue) and which jobs it left.
\<close>

fun smartyWorker ::
  "Provider \<Rightarrow> Address list \<Rightarrow> APIManager \<times> Console
     \<Rightarrow> Event list \<times> (APIManager \<times> Console) \<times> LoopEnd \<times> Address list" where
  "smartyWorker provider [] s = ([], s, Handled, [])"
| "smartyWorker provider (addr # rest) s =
     (case processJob provider addr s of
        (evs, s', e) \<Rightarrow>
          (if e = Handled \<or> e = OutOfAttempts then
             (case smartyWorker provider rest s' of
                (evs', s'', e', left) \<Rightarrow> (evs @ evs', s'', e', left))
           else (evs, s', e, rest)))"

text \<open>
  The waits of each attempt: for every call of \<open>GetCredentials\<close>, the sleeps since the
  previous call (or since the start of the job).
\<close>

fun attempt_waits :: "Duration list \<Rightarrow> Event list \<Rightarrow> Duration list list" where
  "attempt_waits acc [] = []"
| "attempt_waits acc (Sleep d # es) = attempt_waits (acc @ [d]) es"
| "attempt_waits acc (CallGetCredentials # es) = acc # attempt_waits [] es"
| "attempt_waits acc (e # es) = attempt_waits acc es"

text \<open>What a worker put on the two result channels, and the lookups it made.\<close>

fun sent_results :: "Event list \<Rightarrow> Address list" where
  "sent_results [] = []"
| "sent_results (SendResult a # es) = a # sent_results es"
| "sent_results (e # es) = sent_results es"

fun sent_failed :: "Event list \<Rightarrow> Address list" where
  "sent_failed [] = []"
| "sent_failed (SendFailed a # es) = a # sent_failed es"
| "sent_failed (e # es) = sent_failed es"

fun requests :: "Event list \<Rightarrow> (ApiCredential \<times> Address) list" where
  "requests [] = []"
| "requests (Request c a # es) = (c, a) # requests es"
| "requests (e # es) = requests es"

section \<open>Discovery\<close>

text \<open>
  One \<open>.theme-location-item\<close> element of a state page, as the libraries hand it to
  \<open>getStateDetail\<close>: the text of \<open>h3.t-title\<close>, what \<open>priceRe.FindString\<close> finds in the text of
  \<open>div.t-price>b\<close>, what \<open>streetRe.FindStringSubmatch\<close> returns on the markup of \<open>div.t-addr\<close>
  (the whole match and the four groups, or \<open>nil\<close>, the empty list, when the markup does not
  match), and the \<open>href\<close> of the first link, if any.
\<close>

record Card =
  card_title :: string
  card_price :: string
  card_streetMatch :: "string list"
  card_href :: "string option"

text \<open>
  The response of \<open>client.Get\<close>: its status code, and the elements
  \<open>goquery.NewDocumentFromReader\<close> finds in its body, or \<open>None\<close> when reading the body fails
  (the document is then \<open>nil\<close>).  A page is \<open>None\<close> when \<open>client.Get\<close> returns an error
  (the response is then \<open>nil\<close>).
\<close>

record Response =
  StatusCode :: int
  Body :: "Card list option"

type_synonym Web = "string \<Rightarrow> Response option"

datatype DiscoveryLog =
    LogFetching string
  | LogRequestFailed
  | LogBadStatus int
  | LogParseFailed
  | LogFetched string nat

text \<open>The body of the closure passed to \<open>Each\<close>: it reads \<open>streetMatch[1]\<close> to \<open>streetMatch[4]\<close>.\<close>

definition parseCard :: "Card \<Rightarrow> fault + Address" where
  "parseCard s =
     (let streetMatch = card_streetMatch s in
      case go_index streetMatch 1 of Inl f \<Rightarrow> Inl f | Inr street \<Rightarrow>
      case go_index streetMatch 2 of Inl f \<Rightarrow> Inl f | Inr city \<Rightarrow>
      case go_index streetMatch 3 of Inl f \<Rightarrow> Inl f | Inr state \<Rightarrow>
      case go_index streetMatch 4 of Inl f \<Rightarrow> Inl f | Inr zip5 \<Rightarrow>
        Inr \<lparr>Title = card_title s, Price = card_price s,
             Street = TrimSpace street, City = TrimSpace city,
             State = TrimSpace state, Zip = TrimSpace zip5,
             Link = ''https://www.anytimemailbox.com''
                      @ (case card_href s of None \<Rightarrow> [] | Some h \<Rightarrow> h),
             RDI = ''UNKNOWN'', CMRA = ''UNKNOWN''\<rparr>)"

fun parseCards :: "Card list \<Rightarrow> Address list \<Rightarrow> fault + Address list" where
  "parseCards [] parsedAddresses = Inr parsedAddresses"
| "parseCards (s # rest) parsedAddresses =
     (case parseCard s of
        Inl f \<Rightarrow> Inl f
      | Inr addr \<Rightarrow> parseCards rest (parsedAddresses @ [addr]))"

text \<open>
  \<open>getStateDetail\<close>.  After each of its error checks the function logs and goes on, so a
  \<open>nil\<close> response is dereferenced by \<open>res.StatusCode\<close> and a \<open>nil\<close> document by \<open>doc.Find\<close>.
\<close>

definition getStateDetail :: "Web \<Rightarrow> string \<Rightarrow> DiscoveryLog list \<times> (fault + Address list)" where
  "getStateDetail web state =
     (case web (''https://www.anytimemailbox.com/l/usa/'' @ state) of
        None \<Rightarrow> ([LogFetching state, LogRequestFailed], Inl NilPointerDereference)
      | Some res \<Rightarrow>
          (let logs = LogFetching state
                        # (if StatusCode res \<noteq> 200 then [LogBadStatus (StatusCode res)] else [])
           in case Body res of
                None \<Rightarrow> (logs @ [LogParseFailed], Inl NilPointerDereference)
              | Some cards \<Rightarrow>
                  (case parseCards cards [] of
                     Inl f \<Rightarrow> (logs, Inl f)
                   | Inr parsedAddresses \<Rightarrow>
                       (logs @ [LogFetched state (length parsedAddresses)],
                        Inr parsedAddresses))))"

text \<open>
  \<open>atmbWorker\<close> alone on a closed queue of states, with room in the job queue: the states
  it fetched, and the jobs it pushed or the panic that ended the program.
\<close>

fun atmbWorker :: "Web \<Rightarrow> string list \<Rightarrow> string list \<times> (fault + Address list)" where
  "atmbWorker web [] = ([], Inr [])"
| "atmbWorker web (state # rest) =
     (case snd (getStateDetail web state) of
        Inl f \<Rightarrow> ([state], Inl f)
      | Inr addresses \<Rightarrow>
          (case atmbWorker web rest of
             (fetched, Inl f) \<Rightarrow> (state # fetched, Inl f)
           | (fetched, Inr later) \<Rightarrow> (state # fetched, Inr (addresses @ later))))"

section \<open>The pipeline of \<open>main\<close>\<close>

text \<open>
  The goroutines of \<open>main\<close> as actors that a schedule runs one step at a time.  The state
  holds the channels (their buffered contents in order, and whether they are closed), the
  wait groups (one flag per worker), the \<open>sync.Once\<close>, and what the two writers have
  collected.  The model starts where \<open>main\<close> has queued every state on \<open>stateChan\<close> and closed
  it (those sends cannot block: the buffer has room for all states).
\<close>

definition numScrapyWorkers :: nat where
  "numScrapyWorkers = 10"

definition numATMBWorkers :: nat where
  "numATMBWorkers = 5"

definition chanCapacity :: nat where
  "chanCapacity = 1000"

datatype MainStage = WaitingForWorkers | WritingFailed | WaitingForCsv | Finished

record Pipeline =
  apiManager :: APIManager
  console :: Console
  stateChan :: "string list"
  jobs :: "Address list"
  jobsClosed :: bool
  results :: "Address list"
  resultsClosed :: bool
  failedJobs :: "Address list"
  failedJobsClosed :: bool
  atmbPushing :: "Address list list"
  atmbDone :: "bool list"
  scrapyDone :: "bool list"
  shutdownOnce :: bool
  shutdowns :: nat
  discoveryWatcherDone :: bool
  failedWatcherDone :: bool
  csvAddresses :: "Address list"
  csvWriterDone :: bool
  failedAddresses :: "Address list"
  mainStage :: MainStage

definition startPipeline :: "string list \<Rightarrow> ApiCredential list \<Rightarrow> Console \<Rightarrow> Pipeline" where
  "startPipeline states loadedCredentials con =
     \<lparr>apiManager = NewAPIManager loadedCredentials, console = con,
      stateChan = states,
      jobs = [], jobsClosed = False,
      results = [], resultsClosed = False,
      failedJobs = [], failedJobsClosed = False,
      atmbPushing = replicate numATMBWorkers [],
      atmbDone = replicate numATMBWorkers False,
      scrapyDone = replicate numScrapyWorkers False,
      shutdownOnce = False, shutdowns = 0,
      discoveryWatcherDone = False, failedWatcherDone = False,
      csvAddresses = [], csvWriterDone = False,
      failedAddresses = [], mainStage = WaitingForWorkers\<rparr>"

text \<open>
  \<open>shutdownOnce.Do(initiateShutdown)\<close>: the first call runs \<open>close(jobs)\<close>, every later call
  does nothing.
\<close>

definition initiateShutdown :: "Pipeline \<Rightarrow> Pipeline" where
  "initiateShutdown s = s\<lparr>jobsClosed := True, shutdowns := shutdowns s + 1\<rparr>"

definition shutdownOnce_Do :: "Pipeline \<Rightarrow> Pipeline" where
  "shutdownOnce_Do s =
     (if shutdownOnce s then s else (initiateShutdown s)\<lparr>shutdownOnce := True\<rparr>)"

datatype Actor =
    AtmbWorker nat
  | SmartyWorker nat
  | DiscoveryWatcher
  | FailedWatcher
  | CsvWriter
  | Main

text \<open>
  One step of \<open>atmbWorker w\<close>: push the next fetched address on \<open>jobs\<close> (a panic when \<open>jobs\<close>
  is closed, no step while it is full), else take the next state and fetch it, else, the
  state queue being drained, leave.
\<close>

definition atmbStep :: "Web \<Rightarrow> nat \<Rightarrow> Pipeline \<Rightarrow> fault + Pipeline" where
  "atmbStep web w s =
     (if w \<ge> numATMBWorkers \<or> atmbDone s ! w then Inr s
      else
        (case atmbPushing s ! w of
           addr # rest \<Rightarrow>
             if jobsClosed s then Inl SendOnClosedChannel
             else if length (jobs s) \<ge> chanCapacity then Inr s
             else Inr (s\<lparr>jobs := jobs s @ [addr], atmbPushing := (atmbPushing s)[w := rest]\<rparr>)
         | [] \<Rightarrow>
             (case stateChan s of
                [] \<Rightarrow> Inr (s\<lparr>atmbDone := (atmbDone s)[w := True]\<rparr>)
              | state # states \<Rightarrow>
                  (case snd (getStateDetail web state) of
                     Inl f \<Rightarrow> Inl f
                   | Inr addresses \<Rightarrow>
                       Inr (s\<lparr>stateChan := states,
                              atmbPushing := (atmbPushing s)[w := addresses]\<rparr>)))))"

text \<open>
  One step of \<open>smartyWorker w\<close>: take the next job and process it to its end (no step while
  \<open>jobs\<close> is empty and open, or while a result channel is full); leave when \<open>jobs\<close> is closed
  and drained, or when no credential is left.
\<close>

definition smartyStep :: "Provider \<Rightarrow> nat \<Rightarrow> Pipeline \<Rightarrow> fault + Pipeline" where
  "smartyStep provider w s =
     (if w \<ge> numScrapyWorkers \<or> scrapyDone s ! w then Inr s
      else
        (case jobs s of
           [] \<Rightarrow> if jobsClosed s then Inr (s\<lparr>scrapyDone := (scrapyDone s)[w := True]\<rparr>) else Inr s
         | addr # rest \<Rightarrow>
             if length (results s) \<ge> chanCapacity \<or> length (failedJobs s) \<ge> chanCapacity
             then Inr s
             else
               (case processJob provider addr (apiManager s, console s) of
                  (evs, (m, con), e) \<Rightarrow>
                    (case e of
                       Panicked f \<Rightarrow> Inl f
                     | _ \<Rightarrow>
                         Inr (s\<lparr>apiManager := m, console := con, jobs := rest,
                                results := results s @ sent_results evs,
                                failedJobs := failedJobs s @ sent_failed evs,
                                scrapyDone :=
                                  (if e = WorkerReturned then (scrapyDone s)[w := True]
                                   else scrapyDone s)\<rparr>)))))"

text \<open>The goroutine that waits for \<open>atmbWg\<close> and then shuts down.\<close>

definition discoveryWatcherStep :: "Pipeline \<Rightarrow> Pipeline" where
  "discoveryWatcherStep s =
     (if discoveryWatcherDone s \<or> \<not> list_all id (atmbDone s) then s
      else (shutdownOnce_Do s)\<lparr>discoveryWatcherDone := True\<rparr>)"

text \<open>
  The goroutine that receives once from \<open>failedJobs\<close> and then shuts down.  The receive
  takes the first address of the channel and drops it; on the closed and empty channel it
  returns at once.
\<close>

definition failedWatcherStep :: "Pipeline \<Rightarrow> Pipeline" where
  "failedWatcherStep s =
     (if failedWatcherDone s then s
      else
        (case failedJobs s of
           addr # rest \<Rightarrow> (shutdownOnce_Do (s\<lparr>failedJobs := rest\<rparr>))\<lparr>failedWatcherDone := True\<rparr>
         | [] \<Rightarrow>
             if failedJobsClosed s then (shutdownOnce_Do s)\<lparr>failedWatcherDone := True\<rparr>
             else s))"

text \<open>The goroutine of \<open>writeToCSV\<close>, collecting from \<open>results\<close> until it is closed.\<close>

definition csvWriterStep :: "Pipeline \<Rightarrow> Pipeline" where
  "csvWriterStep s =
     (if csvWriterDone s then s
      else
        (case results s of
           addr # rest \<Rightarrow> s\<lparr>results := rest, csvAddresses := csvAddresses s @ [addr]\<rparr>
         | [] \<Rightarrow> if resultsClosed s then s\<lparr>csvWriterDone := True\<rparr> else s))"

text \<open>
  \<open>main\<close> from \<open>scrapyWg.Wait()\<close> on: it closes \<open>results\<close> and \<open>failedJobs\<close> once every
  \<open>smartyWorker\<close> has left, collects what is on \<open>failedJobs\<close> (\<open>writeFailedToCSV\<close>), and waits
  for the writer of \<open>results\<close>.
\<close>

definition mainStep :: "Pipeline \<Rightarrow> Pipeline" where
  "mainStep s =
     (case mainStage s of
        WaitingForWorkers \<Rightarrow>
          if list_all id (scrapyDone s)
          then s\<lparr>resultsClosed := True, failedJobsClosed := True, mainStage := WritingFailed\<rparr>
          else s
      | WritingFailed \<Rightarrow>
          (case failedJobs s of
             addr # rest \<Rightarrow> s\<lparr>failedJobs := rest, failedAddresses := failedAddresses s @ [addr]\<rparr>
           | [] \<Rightarrow> s\<lparr>mainStage := WaitingForCsv\<rparr>)
      | WaitingForCsv \<Rightarrow> if csvWriterDone s then s\<lparr>mainStage := Finished\<rparr> else s
      | Finished \<Rightarrow> s)"

fun step :: "Web \<Rightarrow> Provider \<Rightarrow> Actor \<Rightarrow> Pipeline \<Rightarrow> fault + Pipeline" where
  "step web provider (AtmbWorker w) s = atmbStep web w s"
| "step web provider (SmartyWorker w) s = smartyStep provider w s"
| "step web provider DiscoveryWatcher s = Inr (discoveryWatcherStep s)"
| "step web provider FailedWatcher s = Inr (failedWatcherStep s)"
| "step web provider CsvWriter s = Inr (csvWriterStep s)"
| "step web provider Main s = Inr (mainStep s)"

fun run :: "Web \<Rightarrow> Provider \<Rightarrow> Actor list \<Rightarrow> Pipeline \<Rightarrow> fault + Pipeline" where
  "run web provider [] s = Inr s"
| "run web provider (a # schedule) s =
     (case step web provider a s of
        Inl f \<Rightarrow> Inl f
      | Inr s' \<Rightarrow> run web provider schedule s')"

text \<open>Two views of the state: of the shutdown, and of what reached the writers.\<close>

definition shutdownView :: "Pipeline \<Rightarrow> bool \<times> nat \<times> bool list \<times> nat \<times> Address list" where
  "shutdownView s =
     (jobsClosed s, shutdowns s, atmbDone s, prompts (console s), failedJobs s)"

definition sinkView ::
  "Pipeline \<Rightarrow> MainStage \<times> Address list \<times> Address list \<times> Address list \<times> Address list" where
  "sinkView s = (mainStage s, csvAddresses s, failedAddresses s, results s, failedJobs s)"

definition viewed :: "(Pipeline \<Rightarrow> 'a) \<Rightarrow> fault + Pipeline \<Rightarrow> fault + 'a" where
  "viewed f r = (case r of Inl e \<Rightarrow> Inl e | Inr s \<Rightarrow> Inr (f s))"

text \<open>The state of the \<open>sync.Once\<close> agrees with the job queue and with the count of shutdowns.\<close>

definition once_inv :: "Pipeline \<Rightarrow> bool" where
  "once_inv s \<longleftrightarrow>
     (jobsClosed s \<longleftrightarrow> shutdownOnce s) \<and> shutdowns s = (if shutdownOnce s then 1 else 0)"

section \<open>Sample inputs\<close>

definition credA :: ApiCredential where
  "credA = \<lparr>AuthID = ''idA'', AuthToken = ''tokA''\<rparr>"

definition credB :: ApiCredential where
  "credB = \<lparr>AuthID = ''idB'', AuthToken = ''tokB''\<rparr>"

definition credC :: ApiCredential where
  "credC = \<lparr>AuthID = ''idC'', AuthToken = ''tokC''\<rparr>"

text \<open>An operator who types nothing, and one who types one credential and an empty line.\<close>

definition silent :: Console where
  "silent = \<lparr>stdin = [], prompts = 0\<rparr>"

definition typesCredB :: Console where
  "typesCredB = \<lparr>stdin = ['' idB'', ''tokB '', []], prompts = 0\<rparr>"

definition credD :: ApiCredential where
  "credD = \<lparr>AuthID = ''idD'', AuthToken = ''tokD''\<rparr>"

definition credE :: ApiCredential where
  "credE = \<lparr>AuthID = ''idE'', AuthToken = ''tokE''\<rparr>"

definition addr0 :: Address where
  "addr0 = \<lparr>Title = ''Springfield - Main St'', Price = ''9.99'', Street = ''1 Main St'',
            City = ''Springfield'', State = ''IL'', Zip = ''62701'',
            Link = ''https://www.anytimemailbox.com/s/springfield-1-main-st'',
            RDI = ''UNKNOWN'', CMRA = ''UNKNOWN''\<rparr>"

text \<open>A provider that knows no address, and one that cannot be reached.\<close>

definition unknownProvider :: Provider where
  "unknownProvider cred addr attempt = BatchRecords [[]]"

definition failingProvider :: Provider where
  "failingProvider cred addr attempt = BatchError ''timeout''"

text \<open>
  Two pages: Texas with two well-formed elements, Utah with an element whose address markup
  does not match; no other page can be fetched.
\<close>

definition cardOK :: Card where
  "cardOK = \<lparr>card_title = ''Austin - Congress Ave'', card_price = ''12.99'',
             card_streetMatch = [''100 Congress Ave<br>Austin, TX 78701'', ''100 Congress Ave'',
                                 ''Austin'', ''TX'', ''78701''],
             card_href = Some ''/s/austin-100-congress-ave''\<rparr>"

definition cardOK2 :: Card where
  "cardOK2 = \<lparr>card_title = ''Dallas - Elm St'', card_price = ''14.99'',
              card_streetMatch = [''200 Elm St<br>Dallas, TX 75201'', ''200 Elm St'',
                                  ''Dallas'', ''TX'', ''75201''],
              card_href = Some ''/s/dallas-200-elm-st''\<rparr>"

definition cardBad :: Card where
  "cardBad = \<lparr>card_title = ''Salt Lake City'', card_price = ''9.99'',
              card_streetMatch = [], card_href = None\<rparr>"

definition addrTX :: Address where
  "addrTX = \<lparr>Title = ''Austin - Congress Ave'', Price = ''12.99'', Street = ''100 Congress Ave'',
             City = ''Austin'', State = ''TX'', Zip = ''78701'',
             Link = ''https://www.anytimemailbox.com/s/austin-100-congress-ave'',
             RDI = ''UNKNOWN'', CMRA = ''UNKNOWN''\<rparr>"

definition addrTX2 :: Address where
  "addrTX2 = \<lparr>Title = ''Dallas - Elm St'', Price = ''14.99'', Street = ''200 Elm St'',
              City = ''Dallas'', State = ''TX'', Zip = ''75201'',
              Link = ''https://www.anytimemailbox.com/s/dallas-200-elm-st'',
              RDI = ''UNKNOWN'', CMRA = ''UNKNOWN''\<rparr>"

definition sampleWeb :: Web where
  "sampleWeb url =
     (if url = ''https://www.anytimemailbox.com/l/usa/Texas''
      then Some \<lparr>StatusCode = 200, Body = Some [cardOK, cardOK2]\<rparr>
      else if url = ''https://www.anytimemailbox.com/l/usa/Utah''
      then Some \<lparr>StatusCode = 200, Body = Some [cardBad]\<rparr>
      else None)"

text \<open>
  A run on the single state Texas with one credential and a provider that finds no match:
  worker 0 fetches the page and pushes the first address, a \<open>smartyWorker\<close> processes it,
  and the watcher of \<open>failedJobs\<close> runs.
\<close>

definition untilFirstFailure :: "Actor list" where
  "untilFirstFailure = [AtmbWorker 0, AtmbWorker 0, SmartyWorker 0]"

text \<open>
  A run to the end on the same input: both addresses are pushed and processed, then the
  watchers run, every worker leaves, and \<open>main\<close> and the writer of \<open>results\<close> finish.
\<close>

definition untilBothFailed :: "Actor list" where
  "untilBothFailed = [AtmbWorker 0, AtmbWorker 0, AtmbWorker 0, SmartyWorker 0, SmartyWorker 0]"

definition toTheEnd :: "Actor list" where
  "toTheEnd =
     [FailedWatcher]
     @ map AtmbWorker [0, 1, 2, 3, 4]
     @ [DiscoveryWatcher]
     @ map SmartyWorker [0, 1, 2, 3, 4, 5, 6, 7, 8, 9]
     @ [Main, Main, Main, CsvWriter, Main]"

section \<open>Properties of the credential manager\<close>

text \<open>
  White space beyond ASCII is trimmed, a stray continuation byte is not, and an id line of
  a no-break space alone ends the input loop.
\<close>

lemma TrimSpace_unicode:
  "TrimSpace ([CHR 0xC2, CHR 0xA0] @ ''id'' @ [CHR 0xE3, CHR 0x80, CHR 0x80, CHR 0x20]) = ''id''
   \<and> TrimSpace [CHR 0xE2, CHR 0x80, CHR 0x8A] = []
   \<and> TrimSpace [CHR 0x85] = [CHR 0x85]
   \<and> TrimSpace ''a b'' = ''a b''
   \<and> readCredentials [[CHR 0xC2, CHR 0xA0], ''tok''] [] = ([], [''tok''])"
  by (simp add: TrimSpace_def asciiSpace_def spaceRune2_def spaceRune3_def)

text \<open>What the second sample operator types is read as one credential.\<close>

lemma typed_credB:
  "getAdditionalCredentialsFromUser 1 typesCredB = ([credB], \<lparr>stdin = [], prompts = 1\<rparr>)"
  by (simp add: getAdditionalCredentialsFromUser_def typesCredB_def credB_def TrimSpace_def
      asciiSpace_def spaceRune2_def spaceRune3_def)

text \<open>
  On a state whose cursor is within \<open>0 .. len(credentials)\<close> no index of the manager is out
  of range, and both methods have a closed form.
\<close>

lemma GetCredentials_result:
  assumes "pool_inv m"
  shows "GetCredentials m con =
    (let n = int (length (credentials m));
         reached = (usageCount m \<ge> maxUsage m \<and> current m < n);
         m1 = (if reached then rotate_cursor m else m)
     in if current m1 \<ge> n then
          (let new = fst (getAdditionalCredentialsFromUser 1 con);
               con' = snd (getAdditionalCredentialsFromUser 1 con)
           in if new = [] then Inr ((emptyCredential, False), m1, con')
              else Inr (((credentials m @ new) ! nat (current m1), True),
                        m1\<lparr>credentials := credentials m @ new, usageCount := usageCount m1 + 1\<rparr>, con'))
        else Inr ((credentials m ! nat (current m1), True),
                  m1\<lparr>usageCount := usageCount m1 + 1\<rparr>, con))"
  using assms
  by (auto simp add: GetCredentials_def go_index_def rotate_cursor_def pool_inv_def Let_def
      neq_Nil_conv split: prod.splits)

lemma InvalidateCurrent_result:
  assumes "pool_inv m"
  shows "InvalidateCurrent m =
           Inr (if current m \<ge> int (length (credentials m)) then m else rotate_cursor m)"
  using assms by (simp add: InvalidateCurrent_def go_index_def pool_inv_def)

text \<open>
  C3: the contract of \<open>GetCredentials\<close>.  When the counter of the active credential has
  reached \<open>maxUsage\<close> the cursor moves on by one and the counter restarts from zero before
  a credential is served.  The operator is asked for more credentials exactly when the cursor
  is then past the end of the sequence; the call returns \<open>false\<close> exactly when it asked and
  was given nothing, and otherwise what it was given is appended.  On every return with
  \<open>true\<close> the counter is one higher and the credential returned is the one under the cursor.
\<close>

theorem GetCredentials_contract:
  assumes "pool_inv m"
  shows "\<exists>cred ok m' con'. GetCredentials m con = Inr ((cred, ok), m', con') \<and>
    (let n = int (length (credentials m));
         reached = (usageCount m \<ge> maxUsage m \<and> current m < n);
         cur = (if reached then current m + 1 else current m);
         cnt = (if reached then 0 else usageCount m);
         asked = (cur \<ge> n);
         new = fst (getAdditionalCredentialsFromUser 1 con)
     in current m' = cur
      \<and> con' = (if asked then snd (getAdditionalCredentialsFromUser 1 con) else con)
      \<and> prompts con' = prompts con + (if asked then 1 else 0)
      \<and> (ok \<longleftrightarrow> \<not> (asked \<and> new = []))
      \<and> credentials m' = (if asked then credentials m @ new else credentials m)
      \<and> (ok \<longrightarrow> usageCount m' = cnt + 1
               \<and> 0 \<le> current m' \<and> current m' < int (length (credentials m'))
               \<and> cred = credentials m' ! nat (current m'))
      \<and> (\<not> ok \<longrightarrow> usageCount m' = cnt \<and> cred = emptyCredential)
      \<and> maxUsage m' = maxUsage m)"
  using assms
  by (auto simp add: GetCredentials_result Let_def rotate_cursor_def pool_inv_def
        getAdditionalCredentialsFromUser_def case_prod_beta neq_Nil_conv)

text \<open>A credential at its quota, the operator typing one new credential.\<close>

theorem GetCredentials_contract_witness:
  "pool_inv \<lparr>credentials = [credA], current = 0, usageCount = 1000, maxUsage = 1000\<rparr>
   \<and> (\<exists>cred ok m' con'.
         GetCredentials \<lparr>credentials = [credA], current = 0, usageCount = 1000, maxUsage = 1000\<rparr>
            typesCredB = Inr ((cred, ok), m', con')
         \<and> ok \<and> cred = credB \<and> current m' = 1 \<and> usageCount m' = 1
         \<and> credentials m' = [credA, credB] \<and> prompts con' = 1)"
proof -
  have h: "pool_inv \<lparr>credentials = [credA], current = 0, usageCount = 1000, maxUsage = 1000\<rparr>"
    by (simp add: pool_inv_def)
  from GetCredentials_contract [OF h, of typesCredB]
  show ?thesis using h
    by (auto simp add: Let_def typed_credB)
qed

lemma GetCredentials_step:
  assumes "pool_inv m"
  shows "\<exists>r m' con'. GetCredentials m con = Inr (r, m', con') \<and> pool_inv m'
           \<and> current m \<le> current m'
           \<and> length (credentials m) \<le> length (credentials m')
           \<and> (current m \<ge> int (length (credentials m))
                \<and> length (credentials m') = length (credentials m) \<longrightarrow> m' = m)"
  using assms
  by (auto simp add: GetCredentials_result Let_def rotate_cursor_def pool_inv_def)

lemma InvalidateCurrent_step:
  assumes "pool_inv m"
  shows "\<exists>m'. InvalidateCurrent m = Inr m' \<and> pool_inv m'
           \<and> current m \<le> current m'
           \<and> credentials m' = credentials m
           \<and> (current m \<ge> int (length (credentials m)) \<longrightarrow> m' = m)"
  using assms
  by (auto simp add: InvalidateCurrent_result rotate_cursor_def pool_inv_def)

lemma pool_step_inv:
  assumes "pool_inv m"
  shows "\<exists>m' con'. pool_step op (m, con) = Inr (m', con') \<and> pool_inv m'
           \<and> current m \<le> current m'
           \<and> length (credentials m) \<le> length (credentials m')
           \<and> (current m \<ge> int (length (credentials m))
                \<and> length (credentials m') = length (credentials m) \<longrightarrow> m' = m)"
proof (cases op)
  case Acquire
  from GetCredentials_step [OF assms, of con] show ?thesis
    unfolding Acquire by auto
next
  case Invalidate
  from InvalidateCurrent_step [OF assms] show ?thesis
    unfolding Invalidate by auto
qed

lemma pool_run_inv:
  "pool_inv m \<Longrightarrow>
     \<exists>m' con'. pool_run ops (m, con) = Inr (m', con') \<and> pool_inv m'
           \<and> current m \<le> current m'
           \<and> length (credentials m) \<le> length (credentials m')
           \<and> (current m \<ge> int (length (credentials m))
                \<and> length (credentials m') = length (credentials m) \<longrightarrow> m' = m)"
proof (induction ops arbitrary: m con)
  case Nil
  then show ?case by simp
next
  case (Cons op ops)
  from pool_step_inv [OF Cons.prems, of op con] obtain m1 con1 where
    s: "pool_step op (m, con) = Inr (m1, con1)" and i1: "pool_inv m1"
    and c1: "current m \<le> current m1"
    and l1: "length (credentials m) \<le> length (credentials m1)"
    and e1: "current m \<ge> int (length (credentials m))
                \<and> length (credentials m1) = length (credentials m) \<longrightarrow> m1 = m"
    by blast
  from Cons.IH [OF i1, of con1] obtain m2 con2 where
    r: "pool_run ops (m1, con1) = Inr (m2, con2)" and i2: "pool_inv m2"
    and c2: "current m1 \<le> current m2"
    and l2: "length (credentials m1) \<le> length (credentials m2)"
    and e2: "current m1 \<ge> int (length (credentials m1))
                \<and> length (credentials m2) = length (credentials m1) \<longrightarrow> m2 = m1"
    by blast
  have "pool_run (op # ops) (m, con) = Inr (m2, con2)" using s r by simp
  moreover have "current m \<le> current m2" using c1 c2 by simp
  moreover have "length (credentials m) \<le> length (credentials m2)" using l1 l2 by simp
  moreover have "current m \<ge> int (length (credentials m))
                \<and> length (credentials m2) = length (credentials m) \<longrightarrow> m2 = m"
    using e1 e2 l1 l2 by auto
  ultimately show ?case using i2 by blast
qed

lemma replenished_cursor_valid:
  assumes i: "pool_inv m" and x: "current m \<ge> int (length (credentials m))"
    and n: "fst (getAdditionalCredentialsFromUser 1 con) \<noteq> []"
    and s: "pool_step Acquire (m, con) = Inr (m1, con1)"
  shows "credentials m1 = credentials m @ fst (getAdditionalCredentialsFromUser 1 con)
           \<and> current m1 = current m
           \<and> current m1 < int (length (credentials m1))"
proof -
  let ?new = "fst (getAdditionalCredentialsFromUser 1 con)"
  have l: "0 < length ?new" using n by simp
  have g: "GetCredentials m con =
             Inr (((credentials m @ ?new) ! nat (current m), True),
                  m\<lparr>credentials := credentials m @ ?new, usageCount := usageCount m + 1\<rparr>,
                  snd (getAdditionalCredentialsFromUser 1 con))"
    using i x n by (simp add: GetCredentials_result Let_def)
  from s g have "m1 = m\<lparr>credentials := credentials m @ ?new, usageCount := usageCount m + 1\<rparr>"
    by simp
  with i x l show ?thesis by (simp add: pool_inv_def)
qed

text \<open>
  C9: over any sequence of \<open>GetCredentials\<close> and \<open>InvalidateCurrent\<close> calls the cursor never
  decreases.  From a state whose cursor is past the end, as long as no credential has been
  appended the state is the same and still exhausted; the cursor always stays within
  \<open>0 .. len(credentials)\<close>, and when an exhausted pool is given new credentials the cursor
  is unchanged and is an index into the grown sequence.
\<close>

theorem cursor_monotonic:
  assumes "pool_inv m"
  shows "\<exists>m' con'. pool_run ops (m, con) = Inr (m', con')
           \<and> current m \<le> current m'
           \<and> (current m \<ge> int (length (credentials m))
                \<and> length (credentials m') = length (credentials m) \<longrightarrow>
                  m' = m \<and> current m' \<ge> int (length (credentials m')))
           \<and> 0 \<le> current m' \<and> current m' \<le> int (length (credentials m'))
           \<and> (\<forall>m1 con1. current m' \<ge> int (length (credentials m'))
                \<and> fst (getAdditionalCredentialsFromUser 1 con') \<noteq> []
                \<and> pool_step Acquire (m', con') = Inr (m1, con1) \<longrightarrow>
                  credentials m1
                    = credentials m' @ fst (getAdditionalCredentialsFromUser 1 con')
                  \<and> current m1 = current m'
                  \<and> current m1 < int (length (credentials m1)))"
proof -
  from pool_run_inv [OF assms, of ops con] obtain m' con' where
    r: "pool_run ops (m, con) = Inr (m', con')" and i: "pool_inv m'"
    and c: "current m \<le> current m'"
    and e: "current m \<ge> int (length (credentials m))
                \<and> length (credentials m') = length (credentials m) \<longrightarrow> m' = m"
    by blast
  have g: "\<forall>m1 con1. current m' \<ge> int (length (credentials m'))
                \<and> fst (getAdditionalCredentialsFromUser 1 con') \<noteq> []
                \<and> pool_step Acquire (m', con') = Inr (m1, con1) \<longrightarrow>
                  credentials m1
                    = credentials m' @ fst (getAdditionalCredentialsFromUser 1 con')
                  \<and> current m1 = current m'
                  \<and> current m1 < int (length (credentials m1))"
    using replenished_cursor_valid [OF i] by blast
  have v: "0 \<le> current m' \<and> current m' \<le> int (length (credentials m'))"
    using i by (simp add: pool_inv_def)
  have x: "current m \<ge> int (length (credentials m))
                \<and> length (credentials m') = length (credentials m) \<longrightarrow>
                  m' = m \<and> current m' \<ge> int (length (credentials m'))"
    using e by auto
  from r c x v g show ?thesis by blast
qed

text \<open>One credential invalidated, then the operator typing a second one.\<close>

theorem cursor_monotonic_witness:
  "pool_inv (NewAPIManager [credA])
   \<and> (\<exists>m' con' m1 con1.
         pool_run [Invalidate] (NewAPIManager [credA], typesCredB) = Inr (m', con')
         \<and> current (NewAPIManager [credA]) \<le> current m'
         \<and> current m' \<ge> int (length (credentials m'))
         \<and> fst (getAdditionalCredentialsFromUser 1 con') \<noteq> []
         \<and> pool_step Acquire (m', con') = Inr (m1, con1)
         \<and> credentials m1 = [credA, credB] \<and> current m1 = 1
         \<and> current m1 < int (length (credentials m1)))"
proof -
  have h: "pool_inv (NewAPIManager [credA])"
    by (simp add: pool_inv_def NewAPIManager_def)
  from cursor_monotonic [OF h, of "[Invalidate]" typesCredB]
  show ?thesis using h
    by (simp add: NewAPIManager_def InvalidateCurrent_def GetCredentials_def go_index_def
        rotate_cursor_def typed_credB)
qed

text \<open>
  C10: \<open>NewAPIManager\<close> establishes \<open>0 \<le> current \<le> len(credentials)\<close> and every method
  keeps it.  The cursor moves only from a position inside the sequence, and then by one;
  \<open>InvalidateCurrent\<close> on an exhausted pool returns the state as it is; the read of
  \<open>credentials[current]\<close> in a call of \<open>GetCredentials\<close> that returns \<open>true\<close> is in range.
\<close>

theorem pool_inv_preserved:
  "pool_inv (NewAPIManager creds)
   \<and> (pool_inv m \<longrightarrow>
        (\<exists>cred ok m' con'. GetCredentials m con = Inr ((cred, ok), m', con') \<and> pool_inv m'
           \<and> (ok \<longrightarrow> go_index (credentials m') (current m') = Inr cred)
           \<and> (current m' \<noteq> current m \<longrightarrow>
                 current m < int (length (credentials m)) \<and> current m' = current m + 1)))
   \<and> (pool_inv m \<longrightarrow>
        (\<exists>m'. InvalidateCurrent m = Inr m' \<and> pool_inv m'
           \<and> (current m' \<noteq> current m \<longrightarrow>
                 current m < int (length (credentials m)) \<and> m' = rotate_cursor m)))
   \<and> (current m \<ge> int (length (credentials m)) \<longrightarrow> InvalidateCurrent m = Inr m)
   \<and> (pool_inv m \<longrightarrow> pool_inv (snd (GetAllCredentials m)))
   \<and> (pool_inv m \<longrightarrow> (\<exists>m' con'. pool_run ops (m, con) = Inr (m', con') \<and> pool_inv m'))"
proof -
  have a: "pool_inv (NewAPIManager creds)"
    by (simp add: pool_inv_def NewAPIManager_def)
  have b: "pool_inv m \<longrightarrow>
        (\<exists>cred ok m' con'. GetCredentials m con = Inr ((cred, ok), m', con') \<and> pool_inv m'
           \<and> (ok \<longrightarrow> go_index (credentials m') (current m') = Inr cred)
           \<and> (current m' \<noteq> current m \<longrightarrow>
                 current m < int (length (credentials m)) \<and> current m' = current m + 1))"
    by (auto simp add: GetCredentials_result Let_def rotate_cursor_def pool_inv_def go_index_def
        neq_Nil_conv)
  have c: "pool_inv m \<longrightarrow>
        (\<exists>m'. InvalidateCurrent m = Inr m' \<and> pool_inv m'
           \<and> (current m' \<noteq> current m \<longrightarrow>
                 current m < int (length (credentials m)) \<and> m' = rotate_cursor m))"
    by (auto simp add: InvalidateCurrent_result rotate_cursor_def pool_inv_def)
  have d: "current m \<ge> int (length (credentials m)) \<longrightarrow> InvalidateCurrent m = Inr m"
    by (simp add: InvalidateCurrent_def)
  have e: "pool_inv m \<longrightarrow> pool_inv (snd (GetAllCredentials m))"
    by (simp add: GetAllCredentials_def)
  have f: "pool_inv m \<longrightarrow> (\<exists>m' con'. pool_run ops (m, con) = Inr (m', con') \<and> pool_inv m')"
    using pool_run_inv [of m ops con] by blast
  from a b c d e f show ?thesis by blast
qed

text \<open>A fresh manager with one credential.\<close>

theorem pool_inv_preserved_witness:
  "pool_inv (NewAPIManager [credA])
   \<and> (\<exists>m'. InvalidateCurrent (NewAPIManager [credA]) = Inr m' \<and> pool_inv m'
          \<and> current m' \<noteq> current (NewAPIManager [credA])
          \<and> current (NewAPIManager [credA]) < int (length (credentials (NewAPIManager [credA])))
          \<and> InvalidateCurrent m' = Inr m')
   \<and> (\<exists>cred m' con'. GetCredentials (NewAPIManager [credA]) silent = Inr ((cred, True), m', con')
          \<and> pool_inv m' \<and> go_index (credentials m') (current m') = Inr cred)"
proof -
  have h: "pool_inv (NewAPIManager [credA])"
    by (simp add: pool_inv_def NewAPIManager_def)
  from pool_inv_preserved [of "[credA]" "NewAPIManager [credA]" silent "[]"]
  show ?thesis using h
    by (simp add: NewAPIManager_def InvalidateCurrent_def GetCredentials_def go_index_def
        rotate_cursor_def pool_inv_def)
qed

text \<open>The bounds that keep the counter and the cursor away from overflow.\<close>

lemma counters_bounded_step:
  assumes "counters_bounded m"
  shows "\<exists>m' con'. pool_step op (m, con) = Inr (m', con') \<and> counters_bounded m'"
proof (cases op)
  case Acquire
  from assms have i: "pool_inv m" by (simp add: counters_bounded_def)
  show ?thesis using assms unfolding Acquire
    by (auto simp add: GetCredentials_result [OF i] counters_bounded_def Let_def rotate_cursor_def
        pool_inv_def neq_Nil_conv)
next
  case Invalidate
  from assms have i: "pool_inv m" by (simp add: counters_bounded_def)
  show ?thesis using assms unfolding Invalidate
    by (auto simp add: InvalidateCurrent_result [OF i] counters_bounded_def rotate_cursor_def
        pool_inv_def)
qed

lemma counters_bounded_run:
  "counters_bounded m \<Longrightarrow>
     \<exists>m' con'. pool_run ops (m, con) = Inr (m', con') \<and> counters_bounded m'"
proof (induction ops arbitrary: m con)
  case Nil
  then show ?case by simp
next
  case (Cons op ops)
  from counters_bounded_step [OF Cons.prems, of op con] obtain m1 con1 where
    s: "pool_step op (m, con) = Inr (m1, con1)" and b: "counters_bounded m1" by blast
  from Cons.IH [OF b, of con1] s show ?case by simp
qed

lemma counters_bounded_reachable:
  "\<exists>m' con'. pool_run ops (NewAPIManager creds, con) = Inr (m', con')
     \<and> 0 \<le> usageCount m' \<and> usageCount m' \<le> 1000
     \<and> 0 \<le> current m' \<and> current m' \<le> int (length (credentials m'))"
proof -
  have "counters_bounded (NewAPIManager creds)"
    by (simp add: counters_bounded_def pool_inv_def NewAPIManager_def)
  from counters_bounded_run [OF this, of ops con] show ?thesis
    by (auto simp add: counters_bounded_def pool_inv_def)
qed

lemma Invalidate_repeat_state:
  "pool_inv m \<Longrightarrow>
     pool_run (replicate k Invalidate) (m, con)
       = Inr (if k = 0 \<or> current m \<ge> int (length (credentials m)) then m
              else m\<lparr>current := min (current m + int k) (int (length (credentials m))),
                     usageCount := 0\<rparr>,
              con)"
proof (induction k arbitrary: m)
  case 0
  then show ?case by simp
next
  case (Suc k)
  let ?n = "int (length (credentials m))"
  let ?m1 = "if current m \<ge> ?n then m else rotate_cursor m"
  have s: "pool_step Invalidate (m, con) = Inr (?m1, con)"
    using Suc.prems by (simp add: InvalidateCurrent_result)
  have i1: "pool_inv ?m1" using Suc.prems by (simp add: pool_inv_def rotate_cursor_def)
  have r: "pool_run (replicate (Suc k) Invalidate) (m, con)
             = pool_run (replicate k Invalidate) (?m1, con)"
    using s by simp
  show ?case
  proof (cases "current m \<ge> ?n")
    case True
    then show ?thesis using Suc.IH [OF i1] r by simp
  next
    case False
    then have m1: "?m1 = rotate_cursor m" by simp
    have ih: "pool_run (replicate k Invalidate) (rotate_cursor m, con)
       = Inr (if k = 0 \<or> current (rotate_cursor m) \<ge> int (length (credentials (rotate_cursor m)))
              then rotate_cursor m
              else (rotate_cursor m)\<lparr>current := min (current (rotate_cursor m) + int k)
                                           (int (length (credentials (rotate_cursor m)))),
                     usageCount := 0\<rparr>,
              con)"
      using Suc.IH [OF i1] m1 by simp
    have "pool_run (replicate (Suc k) Invalidate) (m, con)
            = pool_run (replicate k Invalidate) (rotate_cursor m, con)"
      using r m1 by simp
    also have "\<dots> = Inr (m\<lparr>current := min (current m + int (Suc k)) ?n, usageCount := 0\<rparr>, con)"
      using False ih by (auto simp add: rotate_cursor_def min_def)
    finally show ?thesis using False by simp
  qed
qed

text \<open>
  C4, as the code has it: \<open>InvalidateCurrent\<close> takes no argument and compares nothing with
  what its caller saw.  Every call made while the cursor is inside the sequence moves the
  cursor on by one and sets the counter to zero, and changes nothing else; a call on an
  exhausted pool changes nothing at all.  So \<open>k\<close> calls move the cursor by \<open>k\<close>, up to the end
  of the sequence: once per call, not once per cursor value seen.
\<close>

theorem InvalidateCurrent_advances_per_call:
  assumes "pool_inv m"
  shows "InvalidateCurrent m
           = Inr (if current m \<ge> int (length (credentials m)) then m
                  else m\<lparr>current := current m + 1, usageCount := 0\<rparr>)
         \<and> pool_run (replicate k Invalidate) (m, con)
           = Inr (if k = 0 \<or> current m \<ge> int (length (credentials m)) then m
                  else m\<lparr>current := min (current m + int k) (int (length (credentials m))),
                         usageCount := 0\<rparr>,
                  con)"
  using assms Invalidate_repeat_state [OF assms, of k con]
  by (simp add: InvalidateCurrent_result rotate_cursor_def)

text \<open>Two calls on a manager with three credentials, and two on an exhausted one.\<close>

theorem InvalidateCurrent_advances_per_call_witness:
  "pool_inv \<lparr>credentials = [credA, credB, credC], current = 0, usageCount = 2, maxUsage = 1000\<rparr>
   \<and> InvalidateCurrent
        \<lparr>credentials = [credA, credB, credC], current = 0, usageCount = 2, maxUsage = 1000\<rparr>
     = Inr \<lparr>credentials = [credA, credB, credC], current = 1, usageCount = 0, maxUsage = 1000\<rparr>
   \<and> pool_run (replicate 2 Invalidate)
        (\<lparr>credentials = [credA, credB, credC], current = 0, usageCount = 2, maxUsage = 1000\<rparr>,
         silent)
     = Inr (\<lparr>credentials = [credA, credB, credC], current = 2, usageCount = 0, maxUsage = 1000\<rparr>,
            silent)
   \<and> pool_inv \<lparr>credentials = [credA], current = 1, usageCount = 0, maxUsage = 1000\<rparr>
   \<and> pool_run (replicate 2 Invalidate)
        (\<lparr>credentials = [credA], current = 1, usageCount = 0, maxUsage = 1000\<rparr>, silent)
     = Inr (\<lparr>credentials = [credA], current = 1, usageCount = 0, maxUsage = 1000\<rparr>, silent)"
proof -
  let ?m = "\<lparr>credentials = [credA, credB, credC], current = 0, usageCount = 2, maxUsage = 1000\<rparr>"
  let ?x = "\<lparr>credentials = [credA], current = 1, usageCount = 0, maxUsage = 1000\<rparr>"
  have h: "pool_inv ?m" by (simp add: pool_inv_def)
  have hx: "pool_inv ?x" by (simp add: pool_inv_def)
  from InvalidateCurrent_advances_per_call [OF h, of 2 silent]
    InvalidateCurrent_advances_per_call [OF hx, of 2 silent] h hx
  show ?thesis by simp
qed

text \<open>
  Two workers are served the same credential at cursor 0, both requests fail, and both
  workers invalidate: the cursor ends at 2 and the second credential is skipped unused.
\<close>

theorem InvalidateCurrent_same_cursor_counterexample:
  "GetCredentials (NewAPIManager [credA, credB, credC]) silent
     = Inr ((credA, True),
            \<lparr>credentials = [credA, credB, credC], current = 0, usageCount = 1, maxUsage = 1000\<rparr>,
            silent)
   \<and> GetCredentials
        \<lparr>credentials = [credA, credB, credC], current = 0, usageCount = 1, maxUsage = 1000\<rparr> silent
     = Inr ((credA, True),
            \<lparr>credentials = [credA, credB, credC], current = 0, usageCount = 2, maxUsage = 1000\<rparr>,
            silent)
   \<and> InvalidateCurrent
        \<lparr>credentials = [credA, credB, credC], current = 0, usageCount = 2, maxUsage = 1000\<rparr>
     = Inr \<lparr>credentials = [credA, credB, credC], current = 1, usageCount = 0, maxUsage = 1000\<rparr>
   \<and> InvalidateCurrent
        \<lparr>credentials = [credA, credB, credC], current = 1, usageCount = 0, maxUsage = 1000\<rparr>
     = Inr \<lparr>credentials = [credA, credB, credC], current = 2, usageCount = 0, maxUsage = 1000\<rparr>"
  by (simp add: GetCredentials_def InvalidateCurrent_def NewAPIManager_def go_index_def
      rotate_cursor_def)

section \<open>Properties of the enrichment worker\<close>

text \<open>One equation for each way an attempt can go.\<close>

lemma attemptLoop_out_of_attempts:
  "\<not> attempt \<le> maxRetries \<Longrightarrow>
     attemptLoop provider attempt addr (m, con) = ([], (m, con), OutOfAttempts)"
  by (simp add: attemptLoop.simps)

lemma attemptLoop_get_panics:
  "attempt \<le> maxRetries \<Longrightarrow> GetCredentials m con = Inl f \<Longrightarrow>
     attemptLoop provider attempt addr (m, con)
       = (retryWait attempt @ [CallGetCredentials], (m, con), Panicked f)"
  by (simp add: attemptLoop.simps)

lemma attemptLoop_no_credentials:
  "attempt \<le> maxRetries \<Longrightarrow> GetCredentials m con = Inr ((cred, False), m1, con1) \<Longrightarrow>
     attemptLoop provider attempt addr (m, con)
       = (retryWait attempt @ [CallGetCredentials, LogExhausted, SendFailed addr],
          (m1, con1), WorkerReturned)"
  by (simp add: attemptLoop.simps)

lemma attemptLoop_success:
  "attempt \<le> maxRetries \<Longrightarrow> GetCredentials m con = Inr ((cred, True), m1, con1) \<Longrightarrow>
   SmartyInfo (provider cred addr attempt) addr = (None, addr') \<Longrightarrow>
     attemptLoop provider attempt addr (m, con)
       = (retryWait attempt
            @ [CallGetCredentials, Acquired cred, Request cred addr, SendResult addr'],
          (m1, con1), Handled)"
  by (simp add: attemptLoop.simps)

lemma attemptLoop_unknown:
  "attempt \<le> maxRetries \<Longrightarrow> GetCredentials m con = Inr ((cred, True), m1, con1) \<Longrightarrow>
   SmartyInfo (provider cred addr attempt) addr = (Some ErrUnknownAddress, addr') \<Longrightarrow>
     attemptLoop provider attempt addr (m, con)
       = (retryWait attempt
            @ [CallGetCredentials, Acquired cred, Request cred addr,
               LogUnknown addr', SendFailed addr'],
          (m1, con1), Handled)"
  by (simp add: attemptLoop.simps)

lemma attemptLoop_invalidate_panics:
  "attempt \<le> maxRetries \<Longrightarrow> GetCredentials m con = Inr ((cred, True), m1, con1) \<Longrightarrow>
   SmartyInfo (provider cred addr attempt) addr = (Some e, addr') \<Longrightarrow>
   e \<noteq> ErrUnknownAddress \<Longrightarrow> InvalidateCurrent m1 = Inl f \<Longrightarrow>
     attemptLoop provider attempt addr (m, con)
       = (retryWait attempt
            @ [CallGetCredentials, Acquired cred, Request cred addr,
               LogFailure cred (attempt + 1), Invalidated],
          (m1, con1), Panicked f)"
  by (simp add: attemptLoop.simps)

lemma attemptLoop_transient:
  "attempt \<le> maxRetries \<Longrightarrow> GetCredentials m con = Inr ((cred, True), m1, con1) \<Longrightarrow>
   SmartyInfo (provider cred addr attempt) addr = (Some e, addr') \<Longrightarrow>
   e \<noteq> ErrUnknownAddress \<Longrightarrow> InvalidateCurrent m1 = Inr m2 \<Longrightarrow>
     attemptLoop provider attempt addr (m, con)
       = (retryWait attempt
            @ [CallGetCredentials, Acquired cred, Request cred addr,
               LogFailure cred (attempt + 1), Invalidated]
            @ fst (attemptLoop provider (attempt + 1) addr' (m2, con1)),
          snd (attemptLoop provider (attempt + 1) addr' (m2, con1)))"
  by (subst attemptLoop.simps) (simp add: case_prod_beta)

text \<open>The seven ways one attempt can go.\<close>

lemma attemptLoop_cases:
  obtains
    (out) "\<not> attempt \<le> maxRetries"
  | (get_panics) f where "attempt \<le> maxRetries" "GetCredentials m con = Inl f"
  | (no_credentials) cred m1 con1 where "attempt \<le> maxRetries"
      "GetCredentials m con = Inr ((cred, False), m1, con1)"
  | (success) cred m1 con1 addr' where "attempt \<le> maxRetries"
      "GetCredentials m con = Inr ((cred, True), m1, con1)"
      "SmartyInfo (provider cred addr attempt) addr = (None, addr')"
  | (unknown) cred m1 con1 addr' where "attempt \<le> maxRetries"
      "GetCredentials m con = Inr ((cred, True), m1, con1)"
      "SmartyInfo (provider cred addr attempt) addr = (Some ErrUnknownAddress, addr')"
  | (invalidate_panics) cred m1 con1 e addr' f where "attempt \<le> maxRetries"
      "GetCredentials m con = Inr ((cred, True), m1, con1)"
      "SmartyInfo (provider cred addr attempt) addr = (Some e, addr')"
      "e \<noteq> ErrUnknownAddress" "InvalidateCurrent m1 = Inl f"
  | (transient) cred m1 con1 e addr' m2 where "attempt \<le> maxRetries"
      "GetCredentials m con = Inr ((cred, True), m1, con1)"
      "SmartyInfo (provider cred addr attempt) addr = (Some e, addr')"
      "e \<noteq> ErrUnknownAddress" "InvalidateCurrent m1 = Inr m2"
proof (cases "attempt \<le> maxRetries")
  case False
  then show ?thesis by (rule out)
next
  case le: True
  show ?thesis
  proof (cases "GetCredentials m con")
    case (Inl f)
    with le show ?thesis by (rule get_panics)
  next
    case (Inr r)
    obtain cred ok m1 con1 where r: "r = ((cred, ok), m1, con1)"
      by (cases r) auto
    show ?thesis
    proof (cases ok)
      case False
      with le Inr r show ?thesis by (auto intro: no_credentials)
    next
      case ok: True
      obtain err addr' where si: "SmartyInfo (provider cred addr attempt) addr = (err, addr')"
        by (cases "SmartyInfo (provider cred addr attempt) addr") auto
      show ?thesis
      proof (cases err)
        case None
        with le Inr r ok si show ?thesis by (auto intro: success)
      next
        case (Some e)
        show ?thesis
        proof (cases "e = ErrUnknownAddress")
          case True
          with le Inr r ok si Some show ?thesis by (auto intro: unknown)
        next
          case ne: False
          show ?thesis
          proof (cases "InvalidateCurrent m1")
            case (Inl f)
            with le Inr r ok si Some ne show ?thesis by (auto intro: invalidate_panics)
          next
            case inv: (Inr m2)
            with le Inr r ok si Some ne show ?thesis by (auto intro: transient)
          qed
        qed
      qed
    qed
  qed
qed

lemma attempt_waits_prefix:
  "attempt_waits [] (retryWait a @ CallGetCredentials # rest)
     = (if a = 0 then [] else [backoffDuration a]) # attempt_waits [] rest"
  by (simp add: retryWait_def)

lemma attempt_waits_loop:
  "k = maxRetries + 1 - attempt \<Longrightarrow>
     \<exists>n. (attempt \<le> maxRetries \<longrightarrow> 1 \<le> n \<and> attempt + n \<le> maxRetries + 1)
       \<and> attempt_waits [] (fst (attemptLoop provider attempt addr (m, con)))
           = map (\<lambda>i. if i = 0 then [] else [backoffDuration i]) [attempt..<attempt + n]"
proof (induction k arbitrary: attempt addr m con)
  case 0
  then have "\<not> attempt \<le> maxRetries" by simp
  then show ?case
    by (intro exI[of _ 0]) (simp add: attemptLoop_out_of_attempts)
next
  case (Suc k)
  let ?f = "\<lambda>i. if i = 0 then [] else [backoffDuration i]"
  from Suc.prems have le: "attempt \<le> maxRetries" by simp
  have single: "attempt_waits [] (fst (attemptLoop provider attempt addr (m, con))) = [?f attempt]
      \<Longrightarrow> ?case"
    using le by (intro exI[of _ 1]) simp
  show ?case
  proof (cases rule: attemptLoop_cases [where attempt = attempt and m = m and con = con and provider = provider and addr = addr])
    case out
    with le show ?thesis by simp
  next
    case (get_panics f)
    then show ?thesis
      by (intro single) (simp add: attemptLoop_get_panics attempt_waits_prefix)
  next
    case (no_credentials cred m1 con1)
    then show ?thesis
      by (intro single) (simp add: attemptLoop_no_credentials attempt_waits_prefix)
  next
    case (success cred m1 con1 addr')
    then show ?thesis
      by (intro single) (simp add: attemptLoop_success attempt_waits_prefix)
  next
    case (unknown cred m1 con1 addr')
    then show ?thesis
      by (intro single) (simp add: attemptLoop_unknown attempt_waits_prefix)
  next
    case (invalidate_panics cred m1 con1 e addr' f)
    then show ?thesis
      by (intro single) (simp add: attemptLoop_invalidate_panics attempt_waits_prefix)
  next
    case (transient cred m1 con1 e addr' m2)
    have k: "k = maxRetries + 1 - (attempt + 1)" using Suc.prems by simp
    from Suc.IH [OF k, of addr' m2 con1] obtain n where
      n: "attempt + 1 \<le> maxRetries \<longrightarrow> 1 \<le> n \<and> attempt + 1 + n \<le> maxRetries + 1"
      and w: "attempt_waits [] (fst (attemptLoop provider (attempt + 1) addr' (m2, con1)))
                = map ?f [attempt + 1..<attempt + 1 + n]"
      by blast
    have n0: "attempt + 1 + (if attempt + 1 \<le> maxRetries then n else 0) \<le> maxRetries + 1"
      using n le by auto
    let ?n = "if attempt + 1 \<le> maxRetries then n else 0"
    have w': "attempt_waits [] (fst (attemptLoop provider (attempt + 1) addr' (m2, con1)))
                = map ?f [attempt + 1..<attempt + 1 + ?n]"
    proof (cases "attempt + 1 \<le> maxRetries")
      case True
      then show ?thesis using w by simp
    next
      case False
      then show ?thesis by (simp add: attemptLoop_out_of_attempts)
    qed
    have "attempt_waits [] (fst (attemptLoop provider attempt addr (m, con)))
            = ?f attempt # map ?f [attempt + 1..<attempt + 1 + ?n]"
      using transient w' by (simp add: attemptLoop_transient attempt_waits_prefix)
    also have "\<dots> = map ?f [attempt..<attempt + (1 + ?n)]"
      by (simp add: upt_conv_Cons del: upt_Suc)
    finally show ?thesis using n0
      by (intro exI[of _ "1 + ?n"]) simp
  qed
qed


lemma attempt_waits_give_up:
  "attempt_waits acc (evs @ [LogGiveUp a]) = attempt_waits acc evs"
  by (induction acc evs rule: attempt_waits.induct) simp_all

lemma backoffDuration_sint:
  assumes "1 \<le> i" "i \<le> maxRetries"
  shows "sint (backoffDuration i) = sint initialBackoff * 2 ^ (i - 1)"
proof -
  from assms have "i = 1 \<or> i = 2 \<or> i = 3 \<or> i = 4"
    by (auto simp add: maxRetries_def)
  then show ?thesis
    by (auto simp add: backoffDuration_def initialBackoff_def Second_def)
qed

lemma initialBackoff_sint: "sint initialBackoff = 2000000000"
  by (simp add: initialBackoff_def Second_def)

text \<open>
  C7: in the processing of any address, the first call of \<open>GetCredentials\<close> is preceded by
  no sleep, and attempt \<open>i\<close> (for \<open>i = 1 .. n - 1\<close>, at most \<open>maxRetries\<close>) is preceded by
  exactly one sleep, of \<open>backoffDuration i\<close>; read as a signed 64-bit number of nanoseconds
  that is \<open>initialBackoff * 2 ^ (i - 1)\<close> with \<open>initialBackoff\<close> two seconds, without overflow.
\<close>

theorem backoff_schedule:
  "\<exists>n. 1 \<le> n \<and> n \<le> maxRetries + 1
     \<and> attempt_waits [] (fst (processJob provider addr (m, con)))
         = map (\<lambda>i. if i = 0 then [] else [backoffDuration i]) [0..<n]
     \<and> (\<forall>i. 1 \<le> i \<and> i \<le> maxRetries \<longrightarrow>
           sint (backoffDuration i) = sint initialBackoff * 2 ^ (i - 1))
     \<and> sint initialBackoff = 2000000000"
proof -
  from attempt_waits_loop [of "maxRetries + 1" 0 provider addr m con] obtain n where
    n: "1 \<le> n" "n \<le> maxRetries + 1"
    and w: "attempt_waits [] (fst (attemptLoop provider 0 addr (m, con)))
              = map (\<lambda>i. if i = 0 then [] else [backoffDuration i]) [0..<n]"
    by auto
  have "attempt_waits [] (fst (processJob provider addr (m, con)))
          = attempt_waits [] (fst (attemptLoop provider 0 addr (m, con)))"
    by (simp add: processJob_def case_prod_beta attempt_waits_give_up)
  with n w show ?thesis
    using backoffDuration_sint initialBackoff_sint by auto
qed

lemma GetCredentials_served:
  assumes "pool_inv m" "GetCredentials m con = Inr ((cred, True), m1, con1)"
  shows "pool_inv m1 \<and> current m \<le> current m1
           \<and> current m1 < int (length (credentials m1))
           \<and> current m1 = (if usageCount m \<ge> maxUsage m
                               \<and> current m < int (length (credentials m))
                            then current m + 1 else current m)
           \<and> usageCount m1 = (if usageCount m \<ge> maxUsage m
                                  \<and> current m < int (length (credentials m))
                               then 0 else usageCount m) + 1"
  using assms
  by (auto simp add: GetCredentials_result Let_def rotate_cursor_def pool_inv_def neq_Nil_conv
      split: if_splits)

lemma InvalidateCurrent_inside:
  assumes "0 \<le> current m" "current m < int (length (credentials m))"
  shows "InvalidateCurrent m = Inr (rotate_cursor m)"
  using assms by (simp add: InvalidateCurrent_def go_index_def)

lemma SmartyInfo_BatchError:
  "SmartyInfo (BatchError msg) addr = (Some (SendError msg), addr)"
  by (simp add: SmartyInfo_def)

lemma sent_results_append: "sent_results (xs @ ys) = sent_results xs @ sent_results ys"
  by (induction xs rule: sent_results.induct) simp_all

lemma sent_failed_append: "sent_failed (xs @ ys) = sent_failed xs @ sent_failed ys"
  by (induction xs rule: sent_failed.induct) simp_all

lemma requests_append: "requests (xs @ ys) = requests xs @ requests ys"
  by (induction xs rule: requests.induct) simp_all

lemma retryWait_silent:
  "sent_results (retryWait a) = []" "sent_failed (retryWait a) = []"
  "requests (retryWait a) = []" "count_list (retryWait a) Invalidated = 0"
  by (simp_all add: retryWait_def)

lemma count_list_append: "count_list (xs @ ys) x = count_list xs x + count_list ys x"
  by (induction xs) simp_all

lemma transient_loop:
  assumes prov: "\<forall>cred i. \<exists>msg. provider cred addr i = BatchError msg"
  shows "k = maxRetries + 1 - attempt \<Longrightarrow> pool_inv m \<Longrightarrow>
         attemptLoop provider attempt addr (m, con) = (evs, (m', con'), e) \<Longrightarrow>
         e \<noteq> WorkerReturned \<Longrightarrow>
           e = OutOfAttempts \<and> count_list evs Invalidated = k \<and> length (requests evs) = k
           \<and> sent_results evs = [] \<and> sent_failed evs = []
           \<and> pool_inv m' \<and> current m + int k \<le> current m'"
proof (induction k arbitrary: attempt m con evs)
  case 0
  then have "\<not> attempt \<le> maxRetries" by simp
  with 0 show ?case by (simp add: attemptLoop_out_of_attempts)
next
  case (Suc k)
  from Suc.prems have le: "attempt \<le> maxRetries" by simp
  from GetCredentials_step [OF Suc.prems(2), of con] obtain r m1 con1 where
    g: "GetCredentials m con = Inr (r, m1, con1)" by blast
  obtain cred ok where r: "r = (cred, ok)" by (cases r) auto
  have ok: ok
  proof (rule ccontr)
    assume "\<not> ok"
    with le g r have "attemptLoop provider attempt addr (m, con)
        = (retryWait attempt @ [CallGetCredentials, LogExhausted, SendFailed addr],
           (m1, con1), WorkerReturned)"
      by (simp add: attemptLoop_no_credentials)
    with Suc.prems show False by simp
  qed
  from g r ok have g': "GetCredentials m con = Inr ((cred, True), m1, con1)" by simp
  note s = GetCredentials_served [OF Suc.prems(2) g']
  from prov obtain msg where "provider cred addr attempt = BatchError msg" by blast
  then have si: "SmartyInfo (provider cred addr attempt) addr = (Some (SendError msg), addr)"
    by (simp add: SmartyInfo_BatchError)
  have inv: "InvalidateCurrent m1 = Inr (rotate_cursor m1)"
    using s by (intro InvalidateCurrent_inside) (simp_all add: pool_inv_def)
  have i2: "pool_inv (rotate_cursor m1)" using s by (simp add: pool_inv_def rotate_cursor_def)
  have c2: "current (rotate_cursor m1) = current m1 + 1" by (simp add: rotate_cursor_def)
  let ?rest = "attemptLoop provider (attempt + 1) addr (rotate_cursor m1, con1)"
  have unfold: "attemptLoop provider attempt addr (m, con)
       = (retryWait attempt
            @ [CallGetCredentials, Acquired cred, Request cred addr,
               LogFailure cred (attempt + 1), Invalidated]
            @ fst ?rest, snd ?rest)"
    by (rule attemptLoop_transient [where provider = provider, OF le g' si _ inv]) simp
  define evs2 where "evs2 = fst ?rest"
  have "snd ?rest = ((m', con'), e)" using unfold Suc.prems(3) by simp
  then have rest: "?rest = (evs2, (m', con'), e)"
    unfolding evs2_def by (metis prod.collapse)
  have k: "k = maxRetries + 1 - (attempt + 1)" using Suc.prems(1) by simp
  note ih = Suc.IH [OF k i2 rest Suc.prems(4)]
  have evs: "evs = retryWait attempt
            @ [CallGetCredentials, Acquired cred, Request cred addr,
               LogFailure cred (attempt + 1), Invalidated] @ evs2"
    using unfold Suc.prems(3) by (simp add: evs2_def)
  have "count_list evs Invalidated = Suc k"
    using ih by (simp add: evs count_list_append retryWait_silent)
  moreover have "length (requests evs) = Suc k"
    using ih by (simp add: evs requests_append retryWait_silent)
  moreover have "sent_results evs = []"
    using ih by (simp add: evs sent_results_append retryWait_silent)
  moreover have "sent_failed evs = []"
    using ih by (simp add: evs sent_failed_append retryWait_silent)
  moreover have "current m + int (Suc k) \<le> current m'"
    using ih s c2 by simp
  ultimately show ?case using ih by simp
qed


text \<open>Unfolding the definitions on concrete inputs.\<close>

lemmas eval_simps = processJob_def attemptLoop.simps GetCredentials_def InvalidateCurrent_def
  NewAPIManager_def go_index_def rotate_cursor_def getAdditionalCredentialsFromUser_def
  SmartyInfo_def retryWait_def maxRetries_def silent_def failingProvider_def unknownProvider_def

text \<open>Five credentials, a provider that times out at every lookup.\<close>

theorem backoff_schedule_witness:
  "attempt_waits []
     (fst (processJob failingProvider addr0
             (NewAPIManager [credA, credB, credC, credD, credE], silent)))
     = [[], [2000000000], [4000000000], [8000000000], [16000000000]]
   \<and> (1 \<le> (3::nat) \<and> 3 \<le> maxRetries)
   \<and> sint (backoffDuration 3) = 8000000000"
  using backoff_schedule [of failingProvider addr0
      "NewAPIManager [credA, credB, credC, credD, credE]" silent]
  by (simp add: eval_simps backoffDuration_def initialBackoff_def Second_def)

text \<open>
  C6, as the code has it: when the provider fails every lookup of an address with a transient
  error and a credential was available at every attempt, the loop makes
  \<open>maxRetries + 1 = 5\<close> attempts and calls \<open>InvalidateCurrent\<close> after each of them, five times
  (not four); nothing is sent on either channel, the last thing the worker does for the
  address is the give-up log line, the cursor has moved on by at least five, and the worker
  goes on with the next job.
\<close>

theorem retries_exhausted_drop:
  assumes "pool_inv m"
    and "\<forall>cred i. \<exists>msg. provider cred addr i = BatchError msg"
    and "processJob provider addr (m, con) = (evs, (m', con'), e)"
    and "e \<noteq> WorkerReturned"
  shows "e = OutOfAttempts
         \<and> count_list evs Invalidated = maxRetries + 1 \<and> maxRetries + 1 = 5
         \<and> length (requests evs) = maxRetries + 1
         \<and> sent_results evs = [] \<and> sent_failed evs = []
         \<and> last evs = LogGiveUp addr
         \<and> pool_inv m' \<and> current m + 5 \<le> current m'
         \<and> smartyWorker provider (addr # rest) (m, con)
             = (evs @ fst (smartyWorker provider rest (m', con')),
                snd (smartyWorker provider rest (m', con')))"
proof -
  obtain evs0 s0 e0 where l: "attemptLoop provider 0 addr (m, con) = (evs0, s0, e0)"
    by (cases "attemptLoop provider 0 addr (m, con)") auto
  from assms(3) l have e0: "e0 = e" and s0: "s0 = (m', con')"
    by (auto simp add: processJob_def split: if_splits)
  from l e0 s0 have l': "attemptLoop provider 0 addr (m, con) = (evs0, (m', con'), e)" by simp
  have k: "maxRetries + 1 = maxRetries + 1 - 0" by simp
  note t = transient_loop [OF assms(2) k assms(1) l' assms(4)]
  from t have e: "e = OutOfAttempts" by simp
  from assms(3) l e0 e have evs: "evs = LogProcessing addr # evs0 @ [LogGiveUp addr]"
    by (simp add: processJob_def)
  have five: "maxRetries + 1 = 5" by (simp add: maxRetries_def)
  have "count_list evs Invalidated = maxRetries + 1"
    using t by (simp add: evs count_list_append)
  moreover have "length (requests evs) = maxRetries + 1"
    using t by (simp add: evs requests_append)
  moreover have "sent_results evs = []" using t by (simp add: evs sent_results_append)
  moreover have "sent_failed evs = []" using t by (simp add: evs sent_failed_append)
  moreover have "last evs = LogGiveUp addr" by (simp add: evs)
  moreover have "current m + 5 \<le> current m'" using t five by simp
  moreover have "smartyWorker provider (addr # rest) (m, con)
             = (evs @ fst (smartyWorker provider rest (m', con')),
                snd (smartyWorker provider rest (m', con')))"
    using assms(3) e by (simp add: case_prod_beta)
  ultimately show ?thesis using t e five by simp
qed

text \<open>The same run: five credentials are enough for the five attempts.\<close>

theorem retries_exhausted_drop_witness:
  "pool_inv (NewAPIManager [credA, credB, credC, credD, credE])
   \<and> (\<forall>cred i. \<exists>msg. failingProvider cred addr0 i = BatchError msg)
   \<and> snd (snd (processJob failingProvider addr0
             (NewAPIManager [credA, credB, credC, credD, credE], silent))) \<noteq> WorkerReturned
   \<and> count_list
       (fst (processJob failingProvider addr0
               (NewAPIManager [credA, credB, credC, credD, credE], silent)))
       Invalidated = 5
   \<and> sent_failed
       (fst (processJob failingProvider addr0
               (NewAPIManager [credA, credB, credC, credD, credE], silent))) = []"
proof -
  let ?M = "NewAPIManager [credA, credB, credC, credD, credE]"
  have h: "pool_inv ?M" by (simp add: pool_inv_def NewAPIManager_def)
  have p: "\<forall>cred i. \<exists>msg. failingProvider cred addr0 i = BatchError msg"
    by (simp add: failingProvider_def)
  obtain evs m' con' e where j: "processJob failingProvider addr0 (?M, silent) = (evs, (m', con'), e)"
    by (metis prod.collapse)
  have "snd (snd (processJob failingProvider addr0 (?M, silent))) = OutOfAttempts"
    by (simp add: eval_simps)
  with j have ne: "e \<noteq> WorkerReturned" by simp
  from retries_exhausted_drop [OF h p j ne] h p j ne show ?thesis
    by (simp add: maxRetries_def)
qed

text \<open>In that run \<open>InvalidateCurrent\<close> is called five times.\<close>

theorem retries_exhausted_counterexample:
  "count_list
     (fst (processJob failingProvider addr0
             (NewAPIManager [credA, credB, credC, credD, credE], silent)))
     Invalidated = 5
   \<and> snd (snd (processJob failingProvider addr0
             (NewAPIManager [credA, credB, credC, credD, credE], silent))) = OutOfAttempts"
  by (simp add: eval_simps)

text \<open>
  C5: when the lookup made at some attempt finds no match, the loop ends there.  That lookup
  is the only one made from this attempt on, the address is sent on the failure channel and
  not on the results, \<open>InvalidateCurrent\<close> is not called, and the worker goes on with the next
  job.  The manager, and with it the usage counter and the cursor, is exactly as
  \<open>GetCredentials\<close> returned it when the credential for the lookup was acquired.
\<close>

theorem not_found_stops_retrying:
  assumes "attempt \<le> maxRetries"
    and "GetCredentials m con = Inr ((cred, True), m1, con1)"
    and "SmartyInfo (provider cred addr attempt) addr = (Some ErrUnknownAddress, addr')"
  shows "attemptLoop provider attempt addr (m, con)
           = (retryWait attempt
                @ [CallGetCredentials, Acquired cred, Request cred addr,
                   LogUnknown addr', SendFailed addr'],
              (m1, con1), Handled)
         \<and> requests (fst (attemptLoop provider attempt addr (m, con))) = [(cred, addr)]
         \<and> count_list (fst (attemptLoop provider attempt addr (m, con))) Invalidated = 0
         \<and> sent_failed (fst (attemptLoop provider attempt addr (m, con))) = [addr']
         \<and> sent_results (fst (attemptLoop provider attempt addr (m, con))) = []
         \<and> fst (snd (attemptLoop provider attempt addr (m, con))) = (m1, con1)
         \<and> usageCount (fst (fst (snd (attemptLoop provider attempt addr (m, con)))))
             = usageCount m1
         \<and> current (fst (fst (snd (attemptLoop provider attempt addr (m, con)))))
             = current m1
         \<and> snd (snd (attemptLoop provider attempt addr (m, con))) = Handled"
  using attemptLoop_unknown [where provider = provider, OF assms]
  by (simp add: requests_append sent_failed_append sent_results_append count_list_append
      retryWait_silent)

text \<open>
  A manager whose credential has been used three times, a retry, and a provider that finds
  no match: the counter is 4 when the lookup is made and 4 when the loop has ended.
\<close>

theorem not_found_stops_retrying_witness:
  "(1::nat) \<le> maxRetries
   \<and> GetCredentials \<lparr>credentials = [credA], current = 0, usageCount = 3, maxUsage = 1000\<rparr>
         silent
       = Inr ((credA, True),
              \<lparr>credentials = [credA], current = 0, usageCount = 4, maxUsage = 1000\<rparr>, silent)
   \<and> SmartyInfo (unknownProvider credA addr0 1) addr0 = (Some ErrUnknownAddress, addr0)
   \<and> attemptLoop unknownProvider 1 addr0
         (\<lparr>credentials = [credA], current = 0, usageCount = 3, maxUsage = 1000\<rparr>, silent)
       = ([LogRetry 1 (backoffDuration 1), Sleep (backoffDuration 1),
           CallGetCredentials, Acquired credA, Request credA addr0,
           LogUnknown addr0, SendFailed addr0],
          (\<lparr>credentials = [credA], current = 0, usageCount = 4, maxUsage = 1000\<rparr>, silent),
          Handled)
   \<and> usageCount (fst (fst (snd (attemptLoop unknownProvider 1 addr0
         (\<lparr>credentials = [credA], current = 0, usageCount = 3, maxUsage = 1000\<rparr>, silent)))))
       = 4"
proof -
  let ?m = "\<lparr>credentials = [credA], current = 0, usageCount = 3, maxUsage = 1000\<rparr>"
  let ?m1 = "\<lparr>credentials = [credA], current = 0, usageCount = 4, maxUsage = 1000\<rparr>"
  have g: "GetCredentials ?m silent = Inr ((credA, True), ?m1, silent)"
    by (simp add: GetCredentials_def go_index_def)
  have s: "SmartyInfo (unknownProvider credA addr0 1) addr0 = (Some ErrUnknownAddress, addr0)"
    by (simp add: SmartyInfo_def unknownProvider_def)
  have le: "(1::nat) \<le> maxRetries" by (simp add: maxRetries_def)
  from not_found_stops_retrying [where provider = unknownProvider, OF le g s] le g s
  show ?thesis by (simp add: retryWait_def)
qed

text \<open>The same on the first attempt of a job, from a fresh manager.\<close>

lemma not_found_first_attempt:
  "processJob unknownProvider addr0 (NewAPIManager [credA], silent)
     = ([LogProcessing addr0, CallGetCredentials, Acquired credA, Request credA addr0,
         LogUnknown addr0, SendFailed addr0],
        (\<lparr>credentials = [credA], current = 0, usageCount = 1, maxUsage = 1000\<rparr>, silent),
        Handled)"
  by (simp add: eval_simps)

text \<open>
  Accounting for one job: from a state whose cursor is in range the worker never panics,
  and it sends the address exactly once, on one of the two channels, unless it ran out of
  attempts, in which case it sends nothing.
\<close>

lemma attemptLoop_accounting:
  "k = maxRetries + 1 - attempt \<Longrightarrow> pool_inv m \<Longrightarrow>
   attemptLoop provider attempt addr (m, con) = (evs, (m', con'), e) \<Longrightarrow>
     pool_inv m' \<and> (\<forall>f. e \<noteq> Panicked f)
     \<and> length (sent_results evs) + length (sent_failed evs) = (if e = OutOfAttempts then 0 else 1)"
proof (induction k arbitrary: attempt addr m con evs)
  case 0
  then have "\<not> attempt \<le> maxRetries" by simp
  with 0 show ?case by (simp add: attemptLoop_out_of_attempts)
next
  case (Suc k)
  from GetCredentials_step [OF Suc.prems(2), of con] obtain r m1 con1 where
    g: "GetCredentials m con = Inr (r, m1, con1)" and i1: "pool_inv m1" by blast
  show ?case
  proof (cases rule: attemptLoop_cases [where attempt = attempt and m = m and con = con
        and provider = provider and addr = addr])
    case out
    with Suc.prems show ?thesis by simp
  next
    case (get_panics f)
    with g show ?thesis by simp
  next
    case (no_credentials cred m1' con1')
    with g have "m1' = m1" by simp
    with no_credentials Suc.prems(3) i1 show ?thesis
      by (auto simp add: attemptLoop_no_credentials sent_results_append sent_failed_append
          retryWait_silent)
  next
    case (success cred m1' con1' addr')
    with g have "m1' = m1" by simp
    with success Suc.prems(3) i1 show ?thesis
      by (auto simp add: attemptLoop_success [where provider = provider] sent_results_append
          sent_failed_append retryWait_silent)
  next
    case (unknown cred m1' con1' addr')
    with g have "m1' = m1" by simp
    with unknown Suc.prems(3) i1 show ?thesis
      by (auto simp add: attemptLoop_unknown [where provider = provider] sent_results_append
          sent_failed_append retryWait_silent)
  next
    case (invalidate_panics cred m1' con1' e' addr' f)
    with g have "m1' = m1" by simp
    with invalidate_panics InvalidateCurrent_step [OF i1] show ?thesis by auto
  next
    case (transient cred m1' con1' e' addr' m2)
    with g have m1: "m1' = m1" by simp
    from InvalidateCurrent_step [OF i1] transient(5) m1 have i2: "pool_inv m2" by auto
    let ?rest = "attemptLoop provider (attempt + 1) addr' (m2, con1')"
    have unfold: "attemptLoop provider attempt addr (m, con)
       = (retryWait attempt
            @ [CallGetCredentials, Acquired cred, Request cred addr,
               LogFailure cred (attempt + 1), Invalidated]
            @ fst ?rest, snd ?rest)"
      by (rule attemptLoop_transient [where provider = provider, OF transient])
    define evs2 where "evs2 = fst ?rest"
    have "snd ?rest = ((m', con'), e)" using unfold Suc.prems(3) by simp
    then have rest: "?rest = (evs2, (m', con'), e)"
      unfolding evs2_def by (metis prod.collapse)
    have k: "k = maxRetries + 1 - (attempt + 1)" using Suc.prems(1) by simp
    note ih = Suc.IH [OF k i2 rest]
    have evs: "evs = retryWait attempt
            @ [CallGetCredentials, Acquired cred, Request cred addr,
               LogFailure cred (attempt + 1), Invalidated] @ evs2"
      using unfold Suc.prems(3) by (simp add: evs2_def)
    show ?thesis using ih
      by (simp add: evs sent_results_append sent_failed_append retryWait_silent)
  qed
qed

lemma processJob_accounting:
  assumes "pool_inv m" "processJob provider addr (m, con) = (evs, (m', con'), e)"
  shows "pool_inv m' \<and> (\<forall>f. e \<noteq> Panicked f)
         \<and> length (sent_results evs) + length (sent_failed evs)
             = (if e = OutOfAttempts then 0 else 1)"
proof -
  obtain evs0 s0 e0 where l: "attemptLoop provider 0 addr (m, con) = (evs0, s0, e0)"
    by (cases "attemptLoop provider 0 addr (m, con)") auto
  from assms(2) l have e0: "e0 = e" and s0: "s0 = (m', con')"
    by (auto simp add: processJob_def split: if_splits)
  from l e0 s0 have l': "attemptLoop provider 0 addr (m, con) = (evs0, (m', con'), e)" by simp
  have k: "maxRetries + 1 = maxRetries + 1 - 0" by simp
  note t = attemptLoop_accounting [OF k assms(1) l']
  from assms(2) l e0 have "sent_results evs = sent_results evs0 \<and> sent_failed evs = sent_failed evs0"
    by (auto simp add: processJob_def sent_results_append sent_failed_append split: if_splits)
  with t show ?thesis by simp
qed

section \<open>Discovery failures\<close>

text \<open>
  C8: a page that cannot be fetched and a page whose address markup does not match are not
  skipped.  \<open>getStateDetail\<close> logs the failed request and then dereferences the \<open>nil\<close> response;
  on markup that does not match it indexes the \<open>nil\<close> match.  Either panic ends
  \<open>atmbWorker\<close>, and with it the program, before the next state is fetched.  A well-formed
  page yields its addresses.
\<close>

theorem getStateDetail_panics:
  "getStateDetail sampleWeb ''Ohio''
     = ([LogFetching ''Ohio'', LogRequestFailed], Inl NilPointerDereference)
   \<and> getStateDetail sampleWeb ''Utah'' = ([LogFetching ''Utah''], Inl IndexOutOfRange)
   \<and> getStateDetail sampleWeb ''Texas''
     = ([LogFetching ''Texas'', LogFetched ''Texas'' 2], Inr [addrTX, addrTX2])
   \<and> atmbWorker sampleWeb [''Utah'', ''Texas''] = ([''Utah''], Inl IndexOutOfRange)
   \<and> atmbWorker sampleWeb [''Ohio'', ''Texas''] = ([''Ohio''], Inl NilPointerDereference)"
  by (simp add: getStateDetail_def sampleWeb_def parseCard_def go_index_def cardBad_def cardOK_def cardOK2_def addrTX2_def
      addrTX_def TrimSpace_def asciiSpace_def spaceRune2_def spaceRune3_def)

section \<open>The failure channel and the shutdown\<close>

text \<open>
  Whatever the schedule, \<open>initiateShutdown\<close> runs at most once, and \<open>jobs\<close> is closed exactly
  when it has run.
\<close>

lemma shutdownOnce_Do_once_inv: "once_inv s \<Longrightarrow> once_inv (shutdownOnce_Do s)"
  by (simp add: once_inv_def shutdownOnce_Do_def initiateShutdown_def)

lemma step_once_inv:
  assumes "once_inv s" "step web provider a s = Inr s'"
  shows "once_inv s'"
proof (cases a)
  case (AtmbWorker w)
  with assms show ?thesis
    by (auto simp add: atmbStep_def once_inv_def split: if_splits list.splits sum.splits)
next
  case (SmartyWorker w)
  with assms show ?thesis
    by (auto simp add: smartyStep_def once_inv_def
        split: if_splits list.splits prod.splits LoopEnd.splits)
next
  case DiscoveryWatcher
  with assms shutdownOnce_Do_once_inv [OF assms(1)] show ?thesis
    by (auto simp add: discoveryWatcherStep_def once_inv_def split: if_splits)
next
  case FailedWatcher
  have "once_inv (s\<lparr>failedJobs := tl (failedJobs s)\<rparr>)"
    using assms(1) by (simp add: once_inv_def)
  from shutdownOnce_Do_once_inv [OF this] shutdownOnce_Do_once_inv [OF assms(1)] assms
    FailedWatcher
  show ?thesis
    by (auto simp add: failedWatcherStep_def once_inv_def split: if_splits list.splits)
next
  case CsvWriter
  with assms show ?thesis
    by (auto simp add: csvWriterStep_def once_inv_def split: if_splits list.splits)
next
  case Main
  with assms show ?thesis
    by (auto simp add: mainStep_def once_inv_def split: if_splits list.splits MainStage.splits)
qed

lemma run_once_inv:
  "once_inv s \<Longrightarrow> run web provider schedule s = Inr s' \<Longrightarrow> once_inv s'"
proof (induction schedule arbitrary: s)
  case Nil
  then show ?case by simp
next
  case (Cons a schedule)
  then obtain s1 where s1: "step web provider a s = Inr s1"
    by (cases "step web provider a s") auto
  with Cons.prems have "run web provider schedule s1 = Inr s'" by simp
  with Cons.IH step_once_inv [OF Cons.prems(1) s1] show ?case by blast
qed

lemma jobs_closed_at_most_once:
  assumes "run web provider schedule (startPipeline states creds con) = Inr s"
  shows "shutdowns s \<le> 1 \<and> (jobsClosed s \<longleftrightarrow> shutdowns s = 1)"
proof -
  have "once_inv (startPipeline states creds con)"
    by (simp add: once_inv_def startPipeline_def)
  from run_once_inv [OF this assms] show ?thesis
    by (auto simp add: once_inv_def)
qed

text \<open>
  C2: an address the provider does not know closes the job queue.  After the first address
  has been processed, \<open>failedJobs\<close> holds it, \<open>jobs\<close> is open, no \<open>atmbWorker\<close> has finished
  and the operator was never asked for credentials.  The watcher of \<open>failedJobs\<close> then
  receives that address and closes \<open>jobs\<close> (one shutdown); the \<open>atmbWorker\<close> that still
  holds the second address panics on its send.
\<close>

theorem unknown_address_closes_jobs:
  "viewed shutdownView
     (run sampleWeb unknownProvider untilFirstFailure (startPipeline [''Texas''] [credA] silent))
     = Inr (False, 0, [False, False, False, False, False], 0, [addrTX])
   \<and> viewed shutdownView
     (run sampleWeb unknownProvider (untilFirstFailure @ [FailedWatcher])
        (startPipeline [''Texas''] [credA] silent))
     = Inr (True, 1, [False, False, False, False, False], 0, [])
   \<and> run sampleWeb unknownProvider (untilFirstFailure @ [FailedWatcher, AtmbWorker 0])
        (startPipeline [''Texas''] [credA] silent)
     = Inl SendOnClosedChannel"
  by code_simp

text \<open>
  C1: the first address sent on \<open>failedJobs\<close> does not reach the writer of the failed
  results.  Both addresses of the page are sent on \<open>failedJobs\<close>; at the end of the run
  \<open>writeFailedToCSV\<close> has collected the second one only, the channels are empty and nothing
  was written to the results: the first address was taken by the watcher.
\<close>

theorem first_failed_address_lost:
  "viewed sinkView
     (run sampleWeb unknownProvider untilBothFailed (startPipeline [''Texas''] [credA] silent))
     = Inr (WaitingForWorkers, [], [], [], [addrTX, addrTX2])
   \<and> viewed sinkView
     (run sampleWeb unknownProvider (untilBothFailed @ toTheEnd)
        (startPipeline [''Texas''] [credA] silent))
     = Inr (Finished, [], [addrTX2], [], [])"
  by code_simp

end
